theory Spec2Isabelle
  imports Main "HOL-Library.Word" "HOL-Library.Multiset"
begin

section \<open>The HID enumerator of usbhid.cpp\<close>

text \<open>
  The repository is one routine, \<^verbatim>\<open>USBHID_ns::GetlInstalledDevicesInfo\<close>
  (the spec's \<^verbatim>\<open>listInstalledDevices\<close>), and its helper \<^verbatim>\<open>GetDevicePath\<close>.
  Both only sequence calls of the Windows device API. The API is not part of the
  repository, so its answers are a parameter of the model (the record \<open>winapi\<close>): every
  function below is the source's control flow over those answers. Each function also
  returns the list of API calls it made, in order, so that statements about
  acquired and released resources can be made about the code.

  The model is the release build: the three \<^verbatim>\<open>assert\<close>s of the source are
  compiled out, as \<^verbatim>\<open>NDEBUG\<close> does.
\<close>

subsection \<open>Windows types\<close>

type_synonym wchar_t = "16 word"
type_synonym wstring = "wchar_t list"
type_synonym DWORD = "32 word"
type_synonym NTSTATUS = "32 word"
type_synonym HANDLE = "64 word"
type_synonym HDEVINFO = "64 word"
type_synonym PHIDP_PREPARSED_DATA = "64 word"
type_synonym size_t = "64 word"

text \<open>Handles and pointers are 64-bit values; a \<^verbatim>\<open>std::map\<close> keyed by
  \<^verbatim>\<open>HANDLE\<close> orders them as addresses, which is the order of the words.\<close>

text \<open>An interface entry filled in by \<^verbatim>\<open>SetupDiEnumDeviceInterfaces\<close>; the code
  never looks inside it, it only hands it back to the API.\<close>

type_synonym SP_DEVICE_INTERFACE_DATA = nat

definition INVALID_HANDLE_VALUE :: HANDLE where
  "INVALID_HANDLE_VALUE = - 1"

definition HIDP_STATUS_SUCCESS :: NTSTATUS where
  "HIDP_STATUS_SUCCESS = 0x00110000"

definition MAX_USB_DEVICE_STR_LEN :: nat where
  "MAX_USB_DEVICE_STR_LEN = 126"

record HIDD_ATTRIBUTES =
  VendorID :: "16 word"
  ProductID :: "16 word"
  VersionNumber :: "16 word"

record HIDP_CAPS =
  Usage :: "16 word"
  UsagePage :: "16 word"
  InputReportByteLength :: "16 word"
  OutputReportByteLength :: "16 word"
  FeatureReportByteLength :: "16 word"

subsection \<open>The interface types\<close>

text \<open>Modelled from the spec: the header \<^verbatim>\<open>interface/usbhid.hpp\<close> that declares
  \<^verbatim>\<open>hidAttributes\<close> and \<^verbatim>\<open>hidDeviceInfo\<close> is not among the sources. The spec
  gives Attributes as three 16-bit fields and DeviceInfo as path, manufacturer,
  attributes and capabilities; the source initialises both in that order.\<close>

record hidAttributes =
  vendorId :: "16 word"
  productId :: "16 word"
  versionNumber :: "16 word"

record hidDeviceInfo =
  path :: wstring
  manufacturer :: wstring
  attributes :: hidAttributes
  capabilities :: HIDP_CAPS

type_synonym installedDeviceInfoList_t = "hidDeviceInfo list"

subsection \<open>The operating system, as the code sees it\<close>

text \<open>
  One field per API function the source calls, giving what that call answers.
  \<^item> \<open>SetupDiGetClassDevs\<close>: the handle of the device-information set.
  \<^item> \<open>DeviceInterfaces\<close>: the members of that set; enumeration by index succeeds
    below its length and fails from there on.
  \<^item> \<open>RequiredSize\<close>, \<open>InterfaceDetail\<close>: the two calls of
    \<^verbatim>\<open>SetupDiGetDeviceInterfaceDetail\<close>: the size reported to the null buffer, and
    the device path written into a buffer of a given size (\<open>None\<close> when the call
    returns FALSE).
  \<^item> \<open>new_BYTE_array\<close>: whether \<^verbatim>\<open>new BYTE[n]\<close> succeeds (it throws otherwise).
  \<^item> \<open>CreateFile\<close>: the handle returned by the k-th open of this call, for a path.
  \<^item> \<open>HidD_GetManufacturerString\<close>: the return value, and the code units the
    driver wrote from the start of the buffer.
  \<^item> \<open>HidD_GetAttributes\<close>, \<open>HidD_GetPreparsedData\<close>: \<open>None\<close> when the call
    returns FALSE.
  \<^item> \<open>HidP_GetCaps\<close>: the status code and the capabilities written.
\<close>

record winapi =
  SetupDiGetClassDevs :: HDEVINFO
  DeviceInterfaces :: "SP_DEVICE_INTERFACE_DATA list"
  RequiredSize :: "SP_DEVICE_INTERFACE_DATA \<Rightarrow> DWORD"
  InterfaceDetail :: "SP_DEVICE_INTERFACE_DATA \<Rightarrow> DWORD \<Rightarrow> wstring option"
  new_BYTE_array :: "DWORD \<Rightarrow> bool"
  CreateFile :: "nat \<Rightarrow> wstring \<Rightarrow> HANDLE"
  HidD_GetManufacturerString :: "HANDLE \<Rightarrow> bool \<times> wstring"
  HidD_GetAttributes :: "HANDLE \<Rightarrow> HIDD_ATTRIBUTES option"
  HidD_GetPreparsedData :: "HANDLE \<Rightarrow> PHIDP_PREPARSED_DATA option"
  HidP_GetCaps :: "PHIDP_PREPARSED_DATA \<Rightarrow> NTSTATUS \<times> HIDP_CAPS"

text \<open>The API calls a run makes. \<open>Call_SetupDiDestroyDeviceInfoList\<close> is the
  API's release of a device-information set.\<close>

datatype os_call =
    Call_SetupDiGetClassDevs HDEVINFO
  | Call_SetupDiDestroyDeviceInfoList HDEVINFO
  | Call_SetupDiEnumDeviceInterfaces nat
  | Call_SetupDiGetDeviceInterfaceDetail SP_DEVICE_INTERFACE_DATA DWORD
  | Call_CreateFile wstring HANDLE
  | Call_CloseHandle HANDLE
  | Call_HidD_GetManufacturerString HANDLE
  | Call_HidD_GetAttributes HANDLE
  | Call_HidD_GetPreparsedData HANDLE "PHIDP_PREPARSED_DATA option"
  | Call_HidD_FreePreparsedData PHIDP_PREPARSED_DATA
  | Call_HidP_GetCaps PHIDP_PREPARSED_DATA

datatype exn = out_of_range | bad_alloc

subsection \<open>std::map and std::wstring, as far as the code uses them\<close>

text \<open>A \<^verbatim>\<open>std::map\<close> is its sequence of entries in ascending key order, which is
  the order a range-for visits them. \<^verbatim>\<open>emplace\<close> inserts at the key's place and
  leaves the map unchanged when the key is already there.\<close>

fun emplace :: "'k::linorder \<Rightarrow> 'v \<Rightarrow> ('k \<times> 'v) list \<Rightarrow> ('k \<times> 'v) list" where
  "emplace k v [] = [(k, v)]"
| "emplace k v ((k', v') # m) =
     (if k < k' then (k, v) # (k', v') # m
      else if k = k' then (k', v') # m
      else (k', v') # emplace k v m)"

text \<open>\<^verbatim>\<open>map::at\<close> throws \<^verbatim>\<open>std::out_of_range\<close> for an absent key.\<close>

definition at_map :: "('k \<times> 'v) list \<Rightarrow> 'k \<Rightarrow> exn + 'v" where
  "at_map m k = (case map_of m k of None \<Rightarrow> Inl out_of_range | Some v \<Rightarrow> Inr v)"

text \<open>\<^verbatim>\<open>npos\<close> is the largest \<^verbatim>\<open>size_t\<close>. \<^verbatim>\<open>find_first_of\<close> gives the first
  position of the character, or \<^verbatim>\<open>npos\<close>; \<^verbatim>\<open>erase(pos)\<close> removes everything
  from \<open>pos\<close> on and throws \<^verbatim>\<open>std::out_of_range\<close> when \<open>pos\<close> is beyond the size.\<close>

definition npos :: size_t where
  "npos = - 1"

fun find_first_of :: "wstring \<Rightarrow> wchar_t \<Rightarrow> size_t" where
  "find_first_of [] c = npos"
| "find_first_of (x # xs) c =
     (if x = c then 0
      else (let r = find_first_of xs c in if r = npos then npos else r + 1))"

definition erase :: "wstring \<Rightarrow> size_t \<Rightarrow> exn + wstring" where
  "erase str pos =
     (if pos > of_nat (length str) then Inl out_of_range else Inr (take (unat pos) str))"

text \<open>The buffer after the driver wrote \<open>written\<close> into \<open>str.data()\<close>: the code
  units written, then the rest of the zero-filled string. Its size stays that of
  the string.\<close>

definition buffer_after :: "wstring \<Rightarrow> wstring \<Rightarrow> wstring" where
  "buffer_after str written =
     take (length str) written @ drop (length written) str"

subsection \<open>GetDevicePath\<close>

definition SetupDiEnumDeviceInterfaces :: "winapi \<Rightarrow> nat \<Rightarrow> SP_DEVICE_INTERFACE_DATA option" where
  "SetupDiEnumDeviceInterfaces os memberIndex =
     (if memberIndex < length (DeviceInterfaces os)
      then Some (DeviceInterfaces os ! memberIndex) else None)"

text \<open>The \<^verbatim>\<open>try\<close> block of \<^verbatim>\<open>GetDevicePath\<close>: the size query, the allocation of
  the buffer (which throws \<^verbatim>\<open>std::bad_alloc\<close> when it fails), and the query that
  fills the buffer. The value returned is a \<^verbatim>\<open>std::wstring\<close> built from
  \<^verbatim>\<open>DevicePath\<close> as a C string, so it ends before the first null.
  \<open>Inr None\<close> is control falling out of the block.\<close>

definition GetDevicePath_try ::
  "winapi \<Rightarrow> SP_DEVICE_INTERFACE_DATA \<Rightarrow> (exn + wstring option) \<times> os_call list" where
  "GetDevicePath_try os diData =
     (let requiredSize = RequiredSize os diData;
          sized = [Call_SetupDiGetDeviceInterfaceDetail diData 0]
      in if \<not> new_BYTE_array os requiredSize then (Inl bad_alloc, sized)
         else (case InterfaceDetail os diData requiredSize of
                 Some DevicePath \<Rightarrow>
                   (Inr (Some (takeWhile (\<lambda>c. c \<noteq> 0) DevicePath)),
                    sized @ [Call_SetupDiGetDeviceInterfaceDetail diData requiredSize])
               | None \<Rightarrow>
                   (Inr None, sized @ [Call_SetupDiGetDeviceInterfaceDetail diData requiredSize])))"

text \<open>The function: its \<^verbatim>\<open>catch(...)\<close> and the fall-through both return the
  empty string.\<close>

definition GetDevicePath :: "winapi \<Rightarrow> SP_DEVICE_INTERFACE_DATA \<Rightarrow> wstring \<times> os_call list" where
  "GetDevicePath os diData =
     (case GetDevicePath_try os diData of
        (Inl e, t) \<Rightarrow> ([], t)
      | (Inr (Some DevicePath), t) \<Rightarrow> (DevicePath, t)
      | (Inr None, t) \<Rightarrow> ([], t))"

subsection \<open>The stages of GetlInstalledDevicesInfo\<close>

text \<open>The enumeration of the interface entries. \<^verbatim>\<open>memberIndex\<close> is a \<^verbatim>\<open>DWORD\<close>;
  it is a natural number here, for a set of fewer than \<open>2 ^ 32\<close> entries. Every
  function returns, with its value, the API calls it made.\<close>

function devicePaths_loop :: "winapi \<Rightarrow> nat \<Rightarrow> wstring list \<Rightarrow> wstring list \<times> os_call list" where
  "devicePaths_loop os memberIndex devPaths =
     (case SetupDiEnumDeviceInterfaces os memberIndex of
        None \<Rightarrow> (devPaths, [Call_SetupDiEnumDeviceInterfaces memberIndex])
      | Some deviceInterfaceData \<Rightarrow>
          (let got = GetDevicePath os deviceInterfaceData;
               more = devicePaths_loop os (memberIndex + 1)
                        (if fst got \<noteq> [] then devPaths @ [fst got] else devPaths)
           in (fst more, Call_SetupDiEnumDeviceInterfaces memberIndex # snd got @ snd more)))"
  by pat_completeness auto
termination
  by (relation "measure (\<lambda>(os, memberIndex, devPaths). length (DeviceInterfaces os) - memberIndex)")
     (auto simp: SetupDiEnumDeviceInterfaces_def split: if_splits)

fun openDeviceHandles_loop ::
  "winapi \<Rightarrow> nat \<Rightarrow> wstring list \<Rightarrow> (HANDLE \<times> wstring) list \<Rightarrow> (HANDLE \<times> wstring) list \<times> os_call list" where
  "openDeviceHandles_loop os k [] handles = (handles, [])"
| "openDeviceHandles_loop os k (devPath # rest) handles =
     (let handle = CreateFile os k devPath;
          more = openDeviceHandles_loop os (k + 1) rest
                   (if handle \<noteq> INVALID_HANDLE_VALUE then emplace handle devPath handles else handles)
      in (fst more, Call_CreateFile devPath handle # snd more))"

text \<open>The destructor of \<^verbatim>\<open>CloseHandlesGuard\<close>: one \<^verbatim>\<open>CloseHandle\<close> per entry of
  the map of open handles.\<close>

definition CloseHandlesGuard :: "(HANDLE \<times> wstring) list \<Rightarrow> os_call list" where
  "CloseHandlesGuard m_deviceHandleMap = map (\<lambda>elem. Call_CloseHandle (fst elem)) m_deviceHandleMap"

text \<open>The body of the manufacturer loop up to the \<^verbatim>\<open>emplace\<close>: the string is
  created zero-filled, the driver writes into it (the return value of the call is
  not looked at), and the string is cut at the first null.\<close>

definition manufacturer_string :: "winapi \<Rightarrow> HANDLE \<Rightarrow> exn + wstring" where
  "manufacturer_string os hnd =
     (let str = buffer_after (replicate MAX_USB_DEVICE_STR_LEN 0)
                  (snd (HidD_GetManufacturerString os hnd));
          endOfStr = find_first_of str 0
      in erase str endOfStr)"

fun hndManufacturerMap_loop ::
  "winapi \<Rightarrow> (HANDLE \<times> wstring) list \<Rightarrow> (HANDLE \<times> wstring) list \<Rightarrow>
     (exn + (HANDLE \<times> wstring) list) \<times> os_call list" where
  "hndManufacturerMap_loop os [] names = (Inr names, [])"
| "hndManufacturerMap_loop os (elem # rest) names =
     (let hnd = fst elem
      in (case manufacturer_string os hnd of
            Inl e \<Rightarrow> (Inl e, [Call_HidD_GetManufacturerString hnd])
          | Inr str \<Rightarrow>
              (let more = hndManufacturerMap_loop os rest (emplace hnd str names)
               in (fst more, Call_HidD_GetManufacturerString hnd # snd more))))"

definition to_hidAttributes :: "HIDD_ATTRIBUTES \<Rightarrow> hidAttributes" where
  "to_hidAttributes attribs =
     \<lparr>vendorId = VendorID attribs, productId = ProductID attribs,
      versionNumber = VersionNumber attribs\<rparr>"

fun handleAttributesMap_loop ::
  "winapi \<Rightarrow> (HANDLE \<times> wstring) list \<Rightarrow> (HANDLE \<times> hidAttributes) list \<Rightarrow>
     (HANDLE \<times> hidAttributes) list \<times> os_call list" where
  "handleAttributesMap_loop os [] handleAttributes = (handleAttributes, [])"
| "handleAttributesMap_loop os (elem # rest) handleAttributes =
     (let hnd = fst elem;
          more = handleAttributesMap_loop os rest
                   (case HidD_GetAttributes os hnd of
                      Some attribs \<Rightarrow> emplace hnd (to_hidAttributes attribs) handleAttributes
                    | None \<Rightarrow> handleAttributes)
      in (fst more, Call_HidD_GetAttributes hnd # snd more))"

fun handlePreparsedDataMap_loop ::
  "winapi \<Rightarrow> (HANDLE \<times> wstring) list \<Rightarrow> (HANDLE \<times> PHIDP_PREPARSED_DATA) list \<Rightarrow>
     (HANDLE \<times> PHIDP_PREPARSED_DATA) list \<times> os_call list" where
  "handlePreparsedDataMap_loop os [] dataMap = (dataMap, [])"
| "handlePreparsedDataMap_loop os (elem # rest) dataMap =
     (let hnd = fst elem;
          got = HidD_GetPreparsedData os hnd;
          more = handlePreparsedDataMap_loop os rest
                   (case got of
                      Some preparsedData \<Rightarrow> emplace hnd preparsedData dataMap
                    | None \<Rightarrow> dataMap)
      in (fst more, Call_HidD_GetPreparsedData hnd got # snd more))"

text \<open>The destructor of the map of \<^verbatim>\<open>parsedDataPtr\<close>: each
  \<^verbatim>\<open>unique_ptr\<close> that is not null frees its blob with
  \<^verbatim>\<open>HidD_FreePreparsedData\<close>. The standard fixes no order for the nodes; the
  tree is taken down from the largest key to the smallest.\<close>

definition free_handlePreparsedDataMap :: "(HANDLE \<times> PHIDP_PREPARSED_DATA) list \<Rightarrow> os_call list" where
  "free_handlePreparsedDataMap dataMap =
     map (\<lambda>elem. Call_HidD_FreePreparsedData (snd elem))
       (filter (\<lambda>elem. snd elem \<noteq> 0) (rev dataMap))"

fun devPathCapsMap_loop ::
  "winapi \<Rightarrow> (HANDLE \<times> PHIDP_PREPARSED_DATA) list \<Rightarrow> (HANDLE \<times> HIDP_CAPS) list \<Rightarrow>
     (HANDLE \<times> HIDP_CAPS) list \<times> os_call list" where
  "devPathCapsMap_loop os [] devCaps = (devCaps, [])"
| "devPathCapsMap_loop os (elem # rest) devCaps =
     (let hnd = fst elem; preParsedData = snd elem;
          more = devPathCapsMap_loop os rest
                   (if fst (HidP_GetCaps os preParsedData) = HIDP_STATUS_SUCCESS
                    then emplace hnd (snd (HidP_GetCaps os preParsedData)) devCaps
                    else devCaps)
      in (fst more, Call_HidP_GetCaps preParsedData # snd more))"

text \<open>The final loop over \<^verbatim>\<open>handleAttributesMap\<close>; the three \<^verbatim>\<open>at\<close> lookups are
  evaluated left to right and any of them may throw.\<close>

fun installedDeviceInfoList_loop ::
  "(HANDLE \<times> wstring) list \<Rightarrow> (HANDLE \<times> wstring) list \<Rightarrow> (HANDLE \<times> HIDP_CAPS) list \<Rightarrow>
     (HANDLE \<times> hidAttributes) list \<Rightarrow> installedDeviceInfoList_t \<Rightarrow> exn + installedDeviceInfoList_t" where
  "installedDeviceInfoList_loop openDeviceHandles hndManufacturerMap devPathCapsMap [] lst = Inr lst"
| "installedDeviceInfoList_loop openDeviceHandles hndManufacturerMap devPathCapsMap (elem # rest) lst =
     (let hnd = fst elem; attribs = snd elem
      in (case at_map openDeviceHandles hnd of Inl e \<Rightarrow> Inl e | Inr p \<Rightarrow>
         (case at_map hndManufacturerMap hnd of Inl e \<Rightarrow> Inl e | Inr m \<Rightarrow>
         (case at_map devPathCapsMap hnd of Inl e \<Rightarrow> Inl e | Inr c \<Rightarrow>
            installedDeviceInfoList_loop openDeviceHandles hndManufacturerMap devPathCapsMap rest
              (lst @ [\<lparr>path = p, manufacturer = m, attributes = attribs, capabilities = c\<rparr>])))))"

subsection \<open>GetlInstalledDevicesInfo\<close>

text \<open>The locals of the function, each with the API calls its initialiser makes.\<close>

definition devicePaths :: "winapi \<Rightarrow> wstring list \<times> os_call list" where
  "devicePaths os = devicePaths_loop os 0 []"

definition openDeviceHandles :: "winapi \<Rightarrow> (HANDLE \<times> wstring) list \<times> os_call list" where
  "openDeviceHandles os = openDeviceHandles_loop os 0 (fst (devicePaths os)) []"

definition hndManufacturerMap :: "winapi \<Rightarrow> (exn + (HANDLE \<times> wstring) list) \<times> os_call list" where
  "hndManufacturerMap os = hndManufacturerMap_loop os (fst (openDeviceHandles os)) []"

definition handleAttributesMap :: "winapi \<Rightarrow> (HANDLE \<times> hidAttributes) list \<times> os_call list" where
  "handleAttributesMap os = handleAttributesMap_loop os (fst (openDeviceHandles os)) []"

definition handlePreparsedDataMap :: "winapi \<Rightarrow> (HANDLE \<times> PHIDP_PREPARSED_DATA) list \<times> os_call list" where
  "handlePreparsedDataMap os = handlePreparsedDataMap_loop os (fst (openDeviceHandles os)) []"

definition devPathCapsMap :: "winapi \<Rightarrow> (HANDLE \<times> HIDP_CAPS) list \<times> os_call list" where
  "devPathCapsMap os = devPathCapsMap_loop os (fst (handlePreparsedDataMap os)) []"

text \<open>
  The body of the \<^verbatim>\<open>try\<close> block. Its value is \<open>Inl e\<close> when an exception leaves
  the block, \<open>Inr (Some l)\<close> when the block returns \<open>l\<close>, and \<open>Inr None\<close> when
  control falls out of the block (no device-information set). The calls made when
  the block is left, by the destructors of the locals alive at that point, close
  the trace: the blobs are freed first, the handles closed after, the reverse of
  the order of construction.
\<close>

definition try_block :: "winapi \<Rightarrow> (exn + installedDeviceInfoList_t option) \<times> os_call list" where
  "try_block os =
     (let deviceInfo = SetupDiGetClassDevs os;
          t0 = [Call_SetupDiGetClassDevs deviceInfo]
      in if deviceInfo \<noteq> INVALID_HANDLE_VALUE then
           (let closeHandlesGuard = CloseHandlesGuard (fst (openDeviceHandles os));
                t2 = t0 @ snd (devicePaths os) @ snd (openDeviceHandles os) @ snd (hndManufacturerMap os)
            in (case fst (hndManufacturerMap os) of
                  Inl e \<Rightarrow> (Inl e, t2 @ closeHandlesGuard)
                | Inr names \<Rightarrow>
                   (let t6 = t2 @ snd (handleAttributesMap os) @ snd (handlePreparsedDataMap os)
                               @ snd (devPathCapsMap os)
                               @ free_handlePreparsedDataMap (fst (handlePreparsedDataMap os))
                               @ closeHandlesGuard
                    in (case installedDeviceInfoList_loop (fst (openDeviceHandles os)) names
                               (fst (devPathCapsMap os)) (fst (handleAttributesMap os)) [] of
                          Inl e \<Rightarrow> (Inl e, t6)
                        | Inr installedDeviceInfoList \<Rightarrow> (Inr (Some installedDeviceInfoList), t6)))))
         else (Inr None, t0))"

text \<open>The function: \<^verbatim>\<open>catch(...)\<close> swallows every exception, and both the catch
  and the fall-through reach \<^verbatim>\<open>return {}\<close>.\<close>

definition GetlInstalledDevicesInfo :: "winapi \<Rightarrow> installedDeviceInfoList_t \<times> os_call list" where
  "GetlInstalledDevicesInfo os =
     (case try_block os of
        (Inl e, t) \<Rightarrow> ([], t)
      | (Inr (Some installedDeviceInfoList), t) \<Rightarrow> (installedDeviceInfoList, t)
      | (Inr None, t) \<Rightarrow> ([], t))"

text \<open>The spec's operation is the value returned; \<open>os_calls\<close> is what the call
  did to the operating system.\<close>

definition listInstalledDevices :: "winapi \<Rightarrow> installedDeviceInfoList_t" where
  "listInstalledDevices os = fst (GetlInstalledDevicesInfo os)"

definition os_calls :: "winapi \<Rightarrow> os_call list" where
  "os_calls os = snd (GetlInstalledDevicesInfo os)"

subsection \<open>What each loop adds for one element\<close>

definition attributes_entry :: "winapi \<Rightarrow> HANDLE \<times> wstring \<Rightarrow> (HANDLE \<times> hidAttributes) option" where
  "attributes_entry os e = map_option (\<lambda>a. (fst e, to_hidAttributes a)) (HidD_GetAttributes os (fst e))"

definition blob_entry :: "winapi \<Rightarrow> HANDLE \<times> wstring \<Rightarrow> (HANDLE \<times> PHIDP_PREPARSED_DATA) option" where
  "blob_entry os e = map_option (\<lambda>b. (fst e, b)) (HidD_GetPreparsedData os (fst e))"

definition caps_entry :: "winapi \<Rightarrow> HANDLE \<times> PHIDP_PREPARSED_DATA \<Rightarrow> (HANDLE \<times> HIDP_CAPS) option" where
  "caps_entry os e =
     (if fst (HidP_GetCaps os (snd e)) = HIDP_STATUS_SUCCESS
      then Some (fst e, snd (HidP_GetCaps os (snd e))) else None)"

definition device_info :: "winapi \<Rightarrow> HANDLE \<times> hidAttributes \<Rightarrow> hidDeviceInfo" where
  "device_info os elem =
     \<lparr>path = the (map_of (fst (openDeviceHandles os)) (fst elem)),
      manufacturer = projr (manufacturer_string os (fst elem)),
      attributes = snd elem,
      capabilities = the (map_of (fst (devPathCapsMap os)) (fst elem))\<rparr>"

subsection \<open>A device that was queried completely\<close>

text \<open>\<open>fully_queried os hnd r\<close>: the record \<open>r\<close> is made of the answers for the
  handle \<open>hnd\<close>, and every stage succeeded for it: its path was resolved from an
  interface entry, an open of that path returned \<open>hnd\<close>, and the manufacturer
  string, the attributes, the preparsed blob and the capabilities were obtained.\<close>

definition fully_queried :: "winapi \<Rightarrow> HANDLE \<Rightarrow> hidDeviceInfo \<Rightarrow> bool" where
  "fully_queried os hnd r =
     (path r \<noteq> [] \<and>
      (\<exists>d\<in>set (DeviceInterfaces os). fst (GetDevicePath os d) = path r) \<and>
      hnd \<noteq> INVALID_HANDLE_VALUE \<and>
      (\<exists>k\<in>{0..<length (fst (devicePaths os))}.
          fst (devicePaths os) ! k = path r \<and> CreateFile os k (path r) = hnd) \<and>
      (hnd, path r) \<in> set (fst (openDeviceHandles os)) \<and>
      manufacturer_string os hnd = Inr (manufacturer r) \<and>
      (case HidD_GetAttributes os hnd of
         None \<Rightarrow> False
       | Some attribs \<Rightarrow> attributes r = to_hidAttributes attribs) \<and>
      (case HidD_GetPreparsedData os hnd of
         None \<Rightarrow> False
       | Some blob \<Rightarrow> HidP_GetCaps os blob = (HIDP_STATUS_SUCCESS, capabilities r)))"

subsection \<open>A handle that raises no exception\<close>

text \<open>The two places of the \<^verbatim>\<open>try\<close> block that throw, told from the answers of
  the API for one open handle: \<^verbatim>\<open>erase\<close> does not throw when the buffer holds a
  null after the manufacturer query, and \<^verbatim>\<open>at\<close> does not throw in the final loop
  when a handle that has attributes also has capabilities.\<close>

definition no_exception_for :: "winapi \<Rightarrow> HANDLE \<Rightarrow> bool" where
  "no_exception_for os hnd =
     (0 \<in> set (buffer_after (replicate MAX_USB_DEVICE_STR_LEN 0)
                 (snd (HidD_GetManufacturerString os hnd))) \<and>
      (HidD_GetAttributes os hnd = None \<or>
       (case HidD_GetPreparsedData os hnd of
          None \<Rightarrow> False
        | Some blob \<Rightarrow> fst (HidP_GetCaps os blob) = HIDP_STATUS_SUCCESS)))"

subsection \<open>Resources held across a sequence of API calls\<close>

datatype resource =
    DeviceInfoSet HDEVINFO
  | OpenHandle HANDLE
  | PreparsedData PHIDP_PREPARSED_DATA

fun acquired_by :: "os_call \<Rightarrow> resource option" where
  "acquired_by (Call_SetupDiGetClassDevs h) =
     (if h \<noteq> INVALID_HANDLE_VALUE then Some (DeviceInfoSet h) else None)"
| "acquired_by (Call_CreateFile p h) =
     (if h \<noteq> INVALID_HANDLE_VALUE then Some (OpenHandle h) else None)"
| "acquired_by (Call_HidD_GetPreparsedData h (Some b)) =
     (if b \<noteq> 0 then Some (PreparsedData b) else None)"
| "acquired_by c = None"

fun released_by :: "os_call \<Rightarrow> resource option" where
  "released_by (Call_SetupDiDestroyDeviceInfoList h) = Some (DeviceInfoSet h)"
| "released_by (Call_CloseHandle h) = Some (OpenHandle h)"
| "released_by (Call_HidD_FreePreparsedData b) = Some (PreparsedData b)"
| "released_by c = None"

text \<open>The resources held after the calls, given those held before: what a mock
  of the API that books every acquisition and every release would report.\<close>

fun held_after :: "os_call list \<Rightarrow> resource set \<Rightarrow> resource set" where
  "held_after [] R = R"
| "held_after (c # cs) R =
     held_after cs
       (case released_by c of
          Some r \<Rightarrow> R - {r}
        | None \<Rightarrow> (case acquired_by c of Some r \<Rightarrow> insert r R | None \<Rightarrow> R))"

subsection \<open>The devices behind the handles\<close>

text \<open>The valid handles the opens of one call return, in the order of the opens.
  A running system never hands out a handle value that is still open, so these
  are pairwise distinct there.\<close>

definition returned_handles :: "winapi \<Rightarrow> HANDLE list" where
  "returned_handles os =
     filter (\<lambda>h. h \<noteq> INVALID_HANDLE_VALUE)
       (map (\<lambda>kp. CreateFile os (fst kp) (snd kp)) (enumerate 0 (fst (devicePaths os))))"

definition distinct_handles :: "winapi \<Rightarrow> bool" where
  "distinct_handles os = distinct (returned_handles os)"

text \<open>What the system answers about the device behind a handle, with the blob
  value left out: the manufacturer string the loop body computes, the attributes,
  and the capabilities (\<open>None\<close> when the blob query or the parse fails).\<close>

type_synonym device_answers =
  "(exn + wstring) \<times> HIDD_ATTRIBUTES option \<times> HIDP_CAPS option"

definition device_answers :: "winapi \<Rightarrow> HANDLE \<Rightarrow> device_answers" where
  "device_answers os hnd =
     (manufacturer_string os hnd, HidD_GetAttributes os hnd,
      (case HidD_GetPreparsedData os hnd of
         None \<Rightarrow> None
       | Some blob \<Rightarrow>
           if fst (HidP_GetCaps os blob) = HIDP_STATUS_SUCCESS
           then Some (snd (HidP_GetCaps os blob)) else None))"

text \<open>The device behind the k-th open, with the handle value left out as well:
  its path and its answers. \<open>None\<close> when the open fails.\<close>

definition device_view :: "winapi \<Rightarrow> nat \<times> wstring \<Rightarrow> (wstring \<times> device_answers) option" where
  "device_view os kp =
     (let hnd = CreateFile os (fst kp) (snd kp)
      in if hnd = INVALID_HANDLE_VALUE then None else Some (snd kp, device_answers os hnd))"

definition device_views :: "winapi \<Rightarrow> (wstring \<times> device_answers) list" where
  "device_views os = List.map_filter (device_view os) (enumerate 0 (fst (devicePaths os)))"

text \<open>The successful opens of one call, each with its path, in the order of the
  opens.\<close>

definition opened_entries :: "winapi \<Rightarrow> (HANDLE \<times> wstring) list" where
  "opened_entries os =
     filter (\<lambda>e. fst e \<noteq> INVALID_HANDLE_VALUE)
       (map (\<lambda>kp. (CreateFile os (fst kp) (snd kp), snd kp)) (enumerate 0 (fst (devicePaths os))))"

text \<open>The record a device with these answers gets, if it gets one, and the
  records a call returns for a list of devices, in no particular order.\<close>

definition record_of_view :: "wstring \<times> device_answers \<Rightarrow> hidDeviceInfo option" where
  "record_of_view v =
     (case fst (snd (snd v)) of
        None \<Rightarrow> None
      | Some attribs \<Rightarrow>
          Some \<lparr>path = fst v, manufacturer = projr (fst (snd v)),
                attributes = to_hidAttributes attribs,
                capabilities = the (snd (snd (snd v)))\<rparr>)"

definition records_of_views :: "bool \<Rightarrow> (wstring \<times> device_answers) list \<Rightarrow> hidDeviceInfo multiset" where
  "records_of_views no_set vs =
     (if no_set \<or> (\<exists>v\<in>set vs. isl (fst (snd v)))
         \<or> (\<exists>v\<in>set vs. fst (snd (snd v)) \<noteq> None \<and> snd (snd (snd v)) = None)
      then {#} else mset (List.map_filter record_of_view vs))"

text \<open>Two states of the system show the same devices when discovery succeeds in
  both or in neither, and the devices behind the opens answer alike.\<close>

definition same_devices :: "winapi \<Rightarrow> winapi \<Rightarrow> bool" where
  "same_devices os os' =
     ((SetupDiGetClassDevs os = INVALID_HANDLE_VALUE) =
        (SetupDiGetClassDevs os' = INVALID_HANDLE_VALUE) \<and>
      device_views os = device_views os')"

subsection \<open>Example states of the system\<close>

definition pathA :: wstring where
  "pathA = [0x5C, 0x5C, 0x3F, 0x5C, 0x41]"

definition pathB :: wstring where
  "pathB = [0x5C, 0x5C, 0x3F, 0x5C, 0x42]"

definition capsA :: HIDP_CAPS where
  "capsA = \<lparr>Usage = 6, UsagePage = 1, InputReportByteLength = 8,
            OutputReportByteLength = 0, FeatureReportByteLength = 0\<rparr>"

definition capsB :: HIDP_CAPS where
  "capsB = \<lparr>Usage = 2, UsagePage = 1, InputReportByteLength = 4,
            OutputReportByteLength = 0, FeatureReportByteLength = 0\<rparr>"

text \<open>Three interface entries; the path of the second does not resolve. The first
  device answers every query, the second gives no manufacturer string. The handle
  of the first device is the larger one.\<close>

definition two_devices :: winapi where
  "two_devices =
     \<lparr>SetupDiGetClassDevs = 0x500,
      DeviceInterfaces = [7, 8, 9],
      RequiredSize = (\<lambda>d. 64),
      InterfaceDetail = (\<lambda>d n. if d = 7 then Some pathA else if d = 9 then Some pathB else None),
      new_BYTE_array = (\<lambda>n. True),
      CreateFile = (\<lambda>k p. if k = 0 then 0x20 else if k = 1 then 0x10 else INVALID_HANDLE_VALUE),
      HidD_GetManufacturerString =
        (\<lambda>h. if h = 0x20 then (True, [0x41, 0x63, 0x6D, 0x65, 0]) else (False, [])),
      HidD_GetAttributes =
        (\<lambda>h. if h = 0x20 then Some \<lparr>VendorID = 0x1234, ProductID = 0x5678, VersionNumber = 0x0100\<rparr>
             else if h = 0x10 then Some \<lparr>VendorID = 0x1111, ProductID = 0x2222, VersionNumber = 0x0001\<rparr>
             else None),
      HidD_GetPreparsedData =
        (\<lambda>h. if h = 0x20 then Some 0x9000 else if h = 0x10 then Some 0x9100 else None),
      HidP_GetCaps =
        (\<lambda>b. if b = 0x9000 then (HIDP_STATUS_SUCCESS, capsA)
             else if b = 0x9100 then (HIDP_STATUS_SUCCESS, capsB)
             else (0xC0110001, capsA))\<rparr>"

definition recordA :: hidDeviceInfo where
  "recordA = \<lparr>path = pathA, manufacturer = [0x41, 0x63, 0x6D, 0x65],
              attributes = \<lparr>vendorId = 0x1234, productId = 0x5678, versionNumber = 0x0100\<rparr>,
              capabilities = capsA\<rparr>"

definition recordB :: hidDeviceInfo where
  "recordB = \<lparr>path = pathB, manufacturer = [],
              attributes = \<lparr>vendorId = 0x1111, productId = 0x2222, versionNumber = 0x0001\<rparr>,
              capabilities = capsB\<rparr>"

text \<open>The manufacturer query fails for every device, after the driver wrote one
  letter and a null.\<close>

definition manufacturer_failure_with_output :: winapi where
  "manufacturer_failure_with_output =
     two_devices\<lparr>HidD_GetManufacturerString := (\<lambda>h. (False, [0x58, 0]))\<rparr>"

text \<open>Discovery reports no device-information set.\<close>

definition no_device_set :: winapi where
  "no_device_set = two_devices\<lparr>SetupDiGetClassDevs := INVALID_HANDLE_VALUE\<rparr>"


text \<open>The blob query fails for the first device only; its attributes query still
  succeeds.\<close>

definition blob_failure :: winapi where
  "blob_failure =
     two_devices\<lparr>HidD_GetPreparsedData := (\<lambda>h. if h = 0x10 then Some 0x9100 else None)\<rparr>"

text \<open>The attributes query fails for the first device only.\<close>

definition attributes_failure :: winapi where
  "attributes_failure =
     two_devices\<lparr>HidD_GetAttributes :=
       (\<lambda>h. if h = 0x10 then Some \<lparr>VendorID = 0x1111, ProductID = 0x2222, VersionNumber = 0x0001\<rparr>
            else None)\<rparr>"

text \<open>The driver of the first device fills all 126 code units and writes no
  null.\<close>

definition unterminated_manufacturer :: winapi where
  "unterminated_manufacturer =
     two_devices\<lparr>HidD_GetManufacturerString :=
       (\<lambda>h. if h = 0x20 then (True, replicate 126 0x41) else (False, []))\<rparr>"

text \<open>Discovery yields the path of the first device twice; the two opens return
  different handles.\<close>

definition same_path_twice :: winapi where
  "same_path_twice =
     two_devices\<lparr>DeviceInterfaces := [7, 7],
       HidD_GetManufacturerString := (\<lambda>h. (True, [0x41, 0x63, 0x6D, 0x65, 0])),
       HidD_GetAttributes :=
         (\<lambda>h. Some \<lparr>VendorID = 0x1234, ProductID = 0x5678, VersionNumber = 0x0100\<rparr>),
       HidP_GetCaps := (\<lambda>b. (HIDP_STATUS_SUCCESS, capsA))\<rparr>"

text \<open>As \<open>same_path_twice\<close>, but the attributes query fails on the handle of the
  second open.\<close>

definition second_handle_unanswered :: winapi where
  "second_handle_unanswered =
     same_path_twice\<lparr>HidD_GetAttributes :=
       (\<lambda>h. if h = 0x20 then Some \<lparr>VendorID = 0x1234, ProductID = 0x5678, VersionNumber = 0x0100\<rparr>
            else None)\<rparr>"

text \<open>The devices of \<open>two_devices\<close> at a later call: the system hands out other
  handle and blob values, and now the handle of the first device is the smaller
  one.\<close>

definition two_devices_later :: winapi where
  "two_devices_later =
     two_devices\<lparr>SetupDiGetClassDevs := 0x600,
       CreateFile := (\<lambda>k p. if k = 0 then 0x30 else if k = 1 then 0x34 else INVALID_HANDLE_VALUE),
       HidD_GetManufacturerString :=
         (\<lambda>h. if h = 0x30 then (True, [0x41, 0x63, 0x6D, 0x65, 0]) else (False, [])),
       HidD_GetAttributes :=
         (\<lambda>h. if h = 0x30 then Some \<lparr>VendorID = 0x1234, ProductID = 0x5678, VersionNumber = 0x0100\<rparr>
              else if h = 0x34 then Some \<lparr>VendorID = 0x1111, ProductID = 0x2222, VersionNumber = 0x0001\<rparr>
              else None),
       HidD_GetPreparsedData :=
         (\<lambda>h. if h = 0x30 then Some 0xA000 else if h = 0x34 then Some 0xA100 else None),
       HidP_GetCaps :=
         (\<lambda>b. if b = 0xA000 then (HIDP_STATUS_SUCCESS, capsA)
              else if b = 0xA100 then (HIDP_STATUS_SUCCESS, capsB)
              else (0xC0110001, capsA))\<rparr>"

section \<open>Properties of the containers and the loops\<close>

lemma emplace_keys: "set (map fst (emplace k v m)) = insert k (set (map fst m))"
  by (induction k v m rule: emplace.induct) (simp_all add: insert_commute)

lemma emplace_sorted:
  "sorted_wrt (<) (map fst m) \<Longrightarrow> sorted_wrt (<) (map fst (emplace k v m))"
proof (induction m)
  case Nil
  then show ?case by simp
next
  case (Cons e m)
  obtain k' v' where e: "e = (k', v')" by (cases e)
  have keys: "set (map fst (emplace k v m)) = insert k (set (map fst m))" by (rule emplace_keys)
  from Cons have srt: "sorted_wrt (<) (map fst (emplace k v m))" and lt: "\<forall>x\<in>set (map fst m). k' < x"
    by (auto simp: e)
  show ?case
  proof (cases "k < k'")
    case True
    with Cons.prems show ?thesis by (auto simp: e)
  next
    case False
    show ?thesis
    proof (cases "k = k'")
      case True
      with Cons.prems show ?thesis by (simp add: e)
    next
      case ne: False
      with False have "k' < k" by simp
      with lt keys have "\<forall>x\<in>set (map fst (emplace k v m)). k' < x" by simp
      with srt False ne show ?thesis by (simp add: e)
    qed
  qed
qed

lemma emplace_append:
  "\<forall>k'\<in>set (map fst m). k' < k \<Longrightarrow> emplace k v m = m @ [(k, v)]"
  by (induction k v m rule: emplace.induct) auto

text \<open>An \<^verbatim>\<open>emplace\<close> with a key that is already there changes nothing: the
  entry made first stays.\<close>

lemma emplace_present:
  "sorted_wrt (<) (map fst m) \<Longrightarrow> k \<in> set (map fst m) \<Longrightarrow> emplace k v m = m"
proof (induction m)
  case Nil
  then show ?case by simp
next
  case (Cons e m)
  obtain k' v' where e: "e = (k', v')" by (cases e)
  show ?case
  proof (cases "k = k'")
    case True
    then show ?thesis by (simp add: e)
  next
    case False
    with Cons.prems have mem: "k \<in> set (map fst m)" and lt: "k' < k" and srt: "sorted_wrt (<) (map fst m)"
      by (auto simp: e)
    from Cons.IH [OF srt mem] lt False show ?thesis by (simp add: e)
  qed
qed

lemma emplace_mset:
  "k \<notin> set (map fst m) \<Longrightarrow> mset (emplace k v m) = add_mset (k, v) (mset m)"
  by (induction k v m rule: emplace.induct) auto

subsection \<open>The loop that opens the handles\<close>

lemma open_loop_sorted:
  "sorted_wrt (<) (map fst acc) \<Longrightarrow>
   sorted_wrt (<) (map fst (fst (openDeviceHandles_loop os k ps acc)))"
  by (induction ps arbitrary: k acc) (simp_all add: Let_def emplace_sorted)

lemma open_loop_entries:
  "(h, p) \<in> set (fst (openDeviceHandles_loop os k ps acc)) \<Longrightarrow>
   (h, p) \<in> set acc \<or>
   (h \<noteq> INVALID_HANDLE_VALUE \<and> (\<exists>j<length ps. ps ! j = p \<and> CreateFile os (k + j) p = h))"
proof (induction ps arbitrary: k acc)
  case Nil
  then show ?case by simp
next
  case (Cons q ps)
  let ?h = "CreateFile os k q"
  let ?acc = "if ?h \<noteq> INVALID_HANDLE_VALUE then emplace ?h q acc else acc"
  from Cons.prems have "(h, p) \<in> set (fst (openDeviceHandles_loop os (k + 1) ps ?acc))"
    by (simp add: Let_def)
  from Cons.IH [OF this] consider
    (old) "(h, p) \<in> set ?acc" |
    (new) "h \<noteq> INVALID_HANDLE_VALUE" "\<exists>j<length ps. ps ! j = p \<and> CreateFile os (k + 1 + j) p = h"
    by blast
  then show ?case
  proof cases
    case old
    have "set (emplace ?h q acc) \<subseteq> insert (?h, q) (set acc)"
      by (induction ?h q acc rule: emplace.induct) auto
    with old have "(h, p) \<in> set acc \<or> (?h \<noteq> INVALID_HANDLE_VALUE \<and> h = ?h \<and> p = q)"
      by (auto split: if_splits)
    then show ?thesis by auto
  next
    case new
    then obtain j where "j < length ps" "ps ! j = p" "CreateFile os (k + 1 + j) p = h" by blast
    then have "Suc j < length (q # ps) \<and> (q # ps) ! Suc j = p \<and> CreateFile os (k + Suc j) p = h"
      by simp
    with new(1) show ?thesis by blast
  qed
qed

subsection \<open>The manufacturer loop\<close>

lemma names_loop_Inl:
  "e \<in> set m \<Longrightarrow> manufacturer_string os (fst e) = Inl x \<Longrightarrow>
   \<exists>x'. fst (hndManufacturerMap_loop os m acc) = Inl x'"
  by (induction m arbitrary: acc) (auto simp: Let_def split: sum.splits)

lemma names_loop_Inr:
  "sorted_wrt (<) (map fst acc @ map fst m) \<Longrightarrow>
   \<forall>e\<in>set m. \<exists>s. manufacturer_string os (fst e) = Inr s \<Longrightarrow>
   fst (hndManufacturerMap_loop os m acc) =
     Inr (acc @ map (\<lambda>e. (fst e, projr (manufacturer_string os (fst e)))) m)"
proof (induction m arbitrary: acc)
  case Nil
  then show ?case by simp
next
  case (Cons e m)
  from Cons.prems(2) obtain s where s: "manufacturer_string os (fst e) = Inr s" by auto
  from Cons.prems(1) have lt: "\<forall>k'\<in>set (map fst acc). k' < fst e"
    by (auto simp: sorted_wrt_append)
  have app: "emplace (fst e) s acc = acc @ [(fst e, s)]"
    by (rule emplace_append [OF lt])
  from Cons.prems(1) have srt: "sorted_wrt (<) (map fst (acc @ [(fst e, s)]) @ map fst m)"
    by simp
  from Cons.prems(2) have rest: "\<forall>e\<in>set m. \<exists>s. manufacturer_string os (fst e) = Inr s" by simp
  show ?case
    using Cons.IH [OF srt rest] by (simp add: Let_def s app)
qed

subsection \<open>The attribute, blob and capability loops\<close>

lemma attrs_loop_fst:
  "sorted_wrt (<) (map fst acc @ map fst m) \<Longrightarrow>
   fst (handleAttributesMap_loop os m acc) = acc @ List.map_filter (attributes_entry os) m"
proof (induction m arbitrary: acc)
  case Nil
  then show ?case by simp
next
  case (Cons e m)
  from Cons.prems have lt: "\<forall>k'\<in>set (map fst acc). k' < fst e"
    by (auto simp: sorted_wrt_append)
  show ?case
  proof (cases "HidD_GetAttributes os (fst e)")
    case None
    from Cons.prems have "sorted_wrt (<) (map fst acc @ map fst m)"
      by (auto simp: sorted_wrt_append)
    from Cons.IH [OF this] None show ?thesis
      by (simp add: Let_def attributes_entry_def)
  next
    case (Some a)
    have app: "emplace (fst e) (to_hidAttributes a) acc = acc @ [(fst e, to_hidAttributes a)]"
      by (rule emplace_append [OF lt])
    from Cons.prems have "sorted_wrt (<) (map fst (acc @ [(fst e, to_hidAttributes a)]) @ map fst m)"
      by simp
    from Cons.IH [OF this] Some show ?thesis
      by (simp add: Let_def attributes_entry_def app)
  qed
qed

lemma blobs_loop_fst:
  "sorted_wrt (<) (map fst acc @ map fst m) \<Longrightarrow>
   fst (handlePreparsedDataMap_loop os m acc) = acc @ List.map_filter (blob_entry os) m"
proof (induction m arbitrary: acc)
  case Nil
  then show ?case by simp
next
  case (Cons e m)
  from Cons.prems have lt: "\<forall>k'\<in>set (map fst acc). k' < fst e"
    by (auto simp: sorted_wrt_append)
  show ?case
  proof (cases "HidD_GetPreparsedData os (fst e)")
    case None
    from Cons.prems have "sorted_wrt (<) (map fst acc @ map fst m)"
      by (auto simp: sorted_wrt_append)
    from Cons.IH [OF this] None show ?thesis
      by (simp add: Let_def blob_entry_def)
  next
    case (Some b)
    have app: "emplace (fst e) b acc = acc @ [(fst e, b)]"
      by (rule emplace_append [OF lt])
    from Cons.prems have "sorted_wrt (<) (map fst (acc @ [(fst e, b)]) @ map fst m)"
      by simp
    from Cons.IH [OF this] Some show ?thesis
      by (simp add: Let_def blob_entry_def app)
  qed
qed

lemma caps_loop_fst:
  "sorted_wrt (<) (map fst acc @ map fst m) \<Longrightarrow>
   fst (devPathCapsMap_loop os m acc) = acc @ List.map_filter (caps_entry os) m"
proof (induction m arbitrary: acc)
  case Nil
  then show ?case by simp
next
  case (Cons e m)
  from Cons.prems have lt: "\<forall>k'\<in>set (map fst acc). k' < fst e"
    by (auto simp: sorted_wrt_append)
  show ?case
  proof (cases "fst (HidP_GetCaps os (snd e)) = HIDP_STATUS_SUCCESS")
    case False
    from Cons.prems have "sorted_wrt (<) (map fst acc @ map fst m)"
      by (auto simp: sorted_wrt_append)
    from Cons.IH [OF this] False show ?thesis
      by (simp add: Let_def caps_entry_def)
  next
    case True
    let ?c = "snd (HidP_GetCaps os (snd e))"
    have app: "emplace (fst e) ?c acc = acc @ [(fst e, ?c)]"
      by (rule emplace_append [OF lt])
    from Cons.prems have "sorted_wrt (<) (map fst (acc @ [(fst e, ?c)]) @ map fst m)"
      by simp
    from Cons.IH [OF this] True show ?thesis
      by (simp add: Let_def caps_entry_def app)
  qed
qed

lemma map_filter_keys_subset:
  "(\<And>e e'. f e = Some e' \<Longrightarrow> fst e' = fst e) \<Longrightarrow>
   set (map fst (List.map_filter f m)) \<subseteq> set (map fst m)"
  by (auto simp: List.map_filter_def)

lemma map_filter_keys_sorted:
  assumes "sorted_wrt (<) (map fst m)" and key: "\<And>e e'. f e = Some e' \<Longrightarrow> fst e' = fst e"
  shows "sorted_wrt (<) (map fst (List.map_filter f m))"
  using assms(1)
proof (induction m)
  case Nil
  then show ?case by simp
next
  case (Cons e m)
  then have srt: "sorted_wrt (<) (map fst (List.map_filter f m))"
    and lt: "\<forall>k\<in>set (map fst m). fst e < k" by auto
  have keys: "set (map fst (List.map_filter f m)) \<subseteq> set (map fst m)"
    by (rule map_filter_keys_subset) (rule key)
  show ?case
  proof (cases "f e")
    case None
    with srt show ?thesis by simp
  next
    case (Some e')
    with key have "fst e' = fst e" by simp
    moreover from lt keys have "\<forall>k\<in>set (map fst (List.map_filter f m)). fst e < k" by blast
    ultimately show ?thesis using srt Some by simp
  qed
qed

subsection \<open>The final loop\<close>

lemma assemble_loop:
  "installedDeviceInfoList_loop opn names caps attrs lst =
     (if \<forall>e\<in>set attrs. map_of opn (fst e) \<noteq> None \<and> map_of names (fst e) \<noteq> None \<and>
                         map_of caps (fst e) \<noteq> None
      then Inr (lst @ map (\<lambda>e. \<lparr>path = the (map_of opn (fst e)),
                               manufacturer = the (map_of names (fst e)),
                               attributes = snd e,
                               capabilities = the (map_of caps (fst e))\<rparr>) attrs)
      else Inl out_of_range)"
  by (induction attrs arbitrary: lst) (auto simp: Let_def at_map_def split: option.splits)

subsection \<open>The locals of the function\<close>

lemma manufacturer_string_Inl: "manufacturer_string os h = Inl x \<Longrightarrow> x = out_of_range"
  by (simp add: manufacturer_string_def erase_def Let_def split: if_splits)

lemma names_loop_exn:
  "fst (hndManufacturerMap_loop os m acc) = Inl x \<Longrightarrow> x = out_of_range"
  by (induction m arbitrary: acc)
     (auto simp: Let_def split: sum.splits dest: manufacturer_string_Inl)

lemma open_sorted: "sorted_wrt (<) (map fst (fst (openDeviceHandles os)))"
  unfolding openDeviceHandles_def by (rule open_loop_sorted) simp

lemma open_distinct: "distinct (map fst (fst (openDeviceHandles os)))"
  using open_sorted [of os] by (simp add: strict_sorted_iff)

lemma attrs_eq:
  "fst (handleAttributesMap os) = List.map_filter (attributes_entry os) (fst (openDeviceHandles os))"
  unfolding handleAttributesMap_def using attrs_loop_fst [of "[]"] open_sorted by simp

lemma blobs_eq:
  "fst (handlePreparsedDataMap os) = List.map_filter (blob_entry os) (fst (openDeviceHandles os))"
  unfolding handlePreparsedDataMap_def using blobs_loop_fst [of "[]"] open_sorted by simp

lemma attributes_entry_key: "attributes_entry os e = Some e' \<Longrightarrow> fst e' = fst e"
  by (auto simp: attributes_entry_def)

lemma blob_entry_key: "blob_entry os e = Some e' \<Longrightarrow> fst e' = fst e"
  by (auto simp: blob_entry_def)

lemma caps_entry_key: "caps_entry os e = Some e' \<Longrightarrow> fst e' = fst e"
  by (auto simp: caps_entry_def split: if_splits)

lemma attrs_sorted: "sorted_wrt (<) (map fst (fst (handleAttributesMap os)))"
  unfolding attrs_eq by (rule map_filter_keys_sorted [OF open_sorted]) (rule attributes_entry_key)

lemma blobs_sorted: "sorted_wrt (<) (map fst (fst (handlePreparsedDataMap os)))"
  unfolding blobs_eq by (rule map_filter_keys_sorted [OF open_sorted]) (rule blob_entry_key)

lemma caps_eq:
  "fst (devPathCapsMap os) = List.map_filter (caps_entry os) (fst (handlePreparsedDataMap os))"
  unfolding devPathCapsMap_def using caps_loop_fst [of "[]"] blobs_sorted by simp

lemma names_Inl:
  assumes "e \<in> set (fst (openDeviceHandles os))" and "manufacturer_string os (fst e) = Inl x"
  shows "fst (hndManufacturerMap os) = Inl out_of_range"
proof -
  from names_loop_Inl [OF assms, of "[]"] obtain x' where
    x': "fst (hndManufacturerMap os) = Inl x'" by (auto simp: hndManufacturerMap_def)
  then have "x' = out_of_range" unfolding hndManufacturerMap_def by (rule names_loop_exn)
  with x' show ?thesis by simp
qed

lemma names_Inr:
  assumes "\<forall>e\<in>set (fst (openDeviceHandles os)). \<exists>s. manufacturer_string os (fst e) = Inr s"
  shows "fst (hndManufacturerMap os) =
           Inr (map (\<lambda>e. (fst e, projr (manufacturer_string os (fst e)))) (fst (openDeviceHandles os)))"
  unfolding hndManufacturerMap_def using names_loop_Inr [of "[]", OF _ assms] open_sorted by simp

lemma map_of_map_filter:
  assumes key: "\<And>e e'. f e = Some e' \<Longrightarrow> fst e' = fst e"
  shows "distinct (map fst m) \<Longrightarrow>
         map_of (List.map_filter f m) k =
           (case map_of m k of None \<Rightarrow> None | Some v \<Rightarrow> map_option snd (f (k, v)))"
proof (induction m)
  case Nil
  then show ?case by simp
next
  case (Cons e m)
  obtain k0 v0 where e: "e = (k0, v0)" by (cases e)
  from Cons have IH: "map_of (List.map_filter f m) k =
      (case map_of m k of None \<Rightarrow> None | Some v \<Rightarrow> map_option snd (f (k, v)))"
    and notin: "k0 \<notin> set (map fst m)" by (auto simp: e)
  from notin have none: "map_of m k0 = None" by (simp add: map_of_eq_None_iff)
  show ?case
  proof (cases "f e")
    case None
    show ?thesis
    proof (cases "k = k0")
      case True
      with None IH none show ?thesis by (simp add: e)
    next
      case False
      with None IH show ?thesis by (simp add: e)
    qed
  next
    case (Some e')
    with key have k': "fst e' = k0" by (simp add: e)
    obtain k1 v1 where e': "e' = (k1, v1)" by (cases e')
    with k' have "k1 = k0" by simp
    with Some IH show ?thesis by (simp add: e e')
  qed
qed

lemma map_of_names:
  "map_of (map (\<lambda>e. (fst e, g (fst e))) m) k = (if k \<in> set (map fst m) then Some (g k) else None)"
  by (induction m) auto

lemma attrs_keys_open:
  "set (map fst (fst (handleAttributesMap os))) \<subseteq> set (map fst (fst (openDeviceHandles os)))"
  unfolding attrs_eq by (rule map_filter_keys_subset) (rule attributes_entry_key)

lemma try_block_value:
  "fst (try_block os) =
     (if SetupDiGetClassDevs os = INVALID_HANDLE_VALUE then Inr None
      else if \<exists>e\<in>set (fst (openDeviceHandles os)). isl (manufacturer_string os (fst e))
        then Inl out_of_range
      else if \<exists>e\<in>set (fst (handleAttributesMap os)). map_of (fst (devPathCapsMap os)) (fst e) = None
        then Inl out_of_range
      else Inr (Some (map (device_info os) (fst (handleAttributesMap os)))))"
proof (cases "SetupDiGetClassDevs os = INVALID_HANDLE_VALUE")
  case True
  then show ?thesis by (simp add: try_block_def)
next
  case valid: False
  show ?thesis
  proof (cases "\<exists>e\<in>set (fst (openDeviceHandles os)). isl (manufacturer_string os (fst e))")
    case True
    then obtain e x where "e \<in> set (fst (openDeviceHandles os))"
      "manufacturer_string os (fst e) = Inl x"
      by (auto simp: isl_def)
    then have "fst (hndManufacturerMap os) = Inl out_of_range" by (rule names_Inl)
    with valid True show ?thesis by (simp add: try_block_def Let_def)
  next
    case ok: False
    then have all: "\<forall>e\<in>set (fst (openDeviceHandles os)). \<exists>s. manufacturer_string os (fst e) = Inr s"
      by (metis isl_def sum.exhaust_sel sum.collapse(2))
    let ?names = "map (\<lambda>e. (fst e, projr (manufacturer_string os (fst e)))) (fst (openDeviceHandles os))"
    have names: "fst (hndManufacturerMap os) = Inr ?names" by (rule names_Inr [OF all])
    have in_open: "\<forall>e\<in>set (fst (handleAttributesMap os)). fst e \<in> set (map fst (fst (openDeviceHandles os)))"
      using attrs_keys_open [of os] by auto
    then have opn: "\<forall>e\<in>set (fst (handleAttributesMap os)). map_of (fst (openDeviceHandles os)) (fst e) \<noteq> None"
      by (simp add: map_of_eq_None_iff)
    from in_open have nm: "\<forall>e\<in>set (fst (handleAttributesMap os)).
        map_of ?names (fst e) = Some (projr (manufacturer_string os (fst e)))"
      using map_of_names [where g = "\<lambda>h. projr (manufacturer_string os h)"
          and m = "fst (openDeviceHandles os)"] by simp
    have loop: "installedDeviceInfoList_loop (fst (openDeviceHandles os)) ?names
           (fst (devPathCapsMap os)) (fst (handleAttributesMap os)) [] =
        (if \<exists>e\<in>set (fst (handleAttributesMap os)). map_of (fst (devPathCapsMap os)) (fst e) = None
         then Inl out_of_range
         else Inr (map (device_info os) (fst (handleAttributesMap os))))"
      unfolding assemble_loop using opn nm by (auto simp: device_info_def)
    show ?thesis
      using valid ok names loop by (simp add: try_block_def Let_def)
  qed
qed

subsection \<open>The manufacturer string\<close>

lemma find_first_of_absent: "c \<notin> set str \<Longrightarrow> find_first_of str c = npos"
  by (induction str) (auto simp: Let_def)

lemma erase_npos: "length str < 2 ^ 64 - 1 \<Longrightarrow> erase str npos = Inl out_of_range"
proof -
  assume a: "length str < 2 ^ 64 - 1"
  then have "length str mod 2 ^ 64 = length str" by simp
  then have u: "unat (of_nat (length str) :: size_t) = length str"
    by (simp add: unat_of_nat)
  have m: "unat (- 1 :: size_t) = 2 ^ 64 - 1"
    by (simp add: unsigned_minus_1_eq_mask mask_eq_exp_minus_1)
  from a u m have "(of_nat (length str) :: size_t) \<noteq> - 1" by auto
  then have "(of_nat (length str) :: size_t) < npos"
    by (simp add: npos_def word_order.not_eq_extremum)
  then show ?thesis by (simp add: erase_def)
qed

lemma manufacturer_string_unterminated:
  assumes "length (snd (HidD_GetManufacturerString os hnd)) \<ge> MAX_USB_DEVICE_STR_LEN"
      and "0 \<notin> set (take MAX_USB_DEVICE_STR_LEN (snd (HidD_GetManufacturerString os hnd)))"
  shows "manufacturer_string os hnd = Inl out_of_range"
proof -
  let ?w = "snd (HidD_GetManufacturerString os hnd)"
  have buf: "buffer_after (replicate MAX_USB_DEVICE_STR_LEN 0) ?w = take MAX_USB_DEVICE_STR_LEN ?w"
    using assms(1) by (simp add: buffer_after_def)
  have len: "length (take MAX_USB_DEVICE_STR_LEN ?w) < 2 ^ 64 - 1"
    by (simp add: MAX_USB_DEVICE_STR_LEN_def)
  show ?thesis
    unfolding manufacturer_string_def Let_def buf
    using find_first_of_absent [OF assms(2)] erase_npos [OF len] by simp
qed

lemma manufacturer_string_nothing_written:
  "snd (HidD_GetManufacturerString os hnd) = [] \<Longrightarrow> manufacturer_string os hnd = Inr []"
  by (simp add: manufacturer_string_def buffer_after_def MAX_USB_DEVICE_STR_LEN_def erase_def
      numeral_eq_Suc)


lemma listInstalledDevices_value:
  "listInstalledDevices os =
     (case fst (try_block os) of Inl e \<Rightarrow> [] | Inr None \<Rightarrow> [] | Inr (Some l) \<Rightarrow> l)"
  by (simp add: listInstalledDevices_def GetlInstalledDevicesInfo_def
      split: prod.splits sum.splits option.splits)

subsection \<open>Where the entries of the collections come from\<close>

lemma devicePaths_loop_entries:
  "p \<in> set (fst (devicePaths_loop os i acc)) \<Longrightarrow>
   p \<in> set acc \<or> (p \<noteq> [] \<and> (\<exists>d\<in>set (DeviceInterfaces os). fst (GetDevicePath os d) = p))"
proof (induction os i acc rule: devicePaths_loop.induct)
  case (1 os memberIndex devPaths)
  show ?case
  proof (cases "SetupDiEnumDeviceInterfaces os memberIndex")
    case None
    with "1.prems" show ?thesis by simp
  next
    case (Some d)
    then have d: "d \<in> set (DeviceInterfaces os)"
      by (auto simp: SetupDiEnumDeviceInterfaces_def split: if_splits)
    let ?acc = "if fst (GetDevicePath os d) \<noteq> [] then devPaths @ [fst (GetDevicePath os d)] else devPaths"
    from "1.prems" Some have "p \<in> set (fst (devicePaths_loop os (memberIndex + 1) ?acc))"
      by (simp add: Let_def)
    from "1.IH" [OF Some refl this]
    have "p \<in> set ?acc \<or> (p \<noteq> [] \<and> (\<exists>d\<in>set (DeviceInterfaces os). fst (GetDevicePath os d) = p))" .
    with d show ?thesis by (auto split: if_splits)
  qed
qed

lemma devicePaths_entries:
  "p \<in> set (fst (devicePaths os)) \<Longrightarrow>
   p \<noteq> [] \<and> (\<exists>d\<in>set (DeviceInterfaces os). fst (GetDevicePath os d) = p)"
  unfolding devicePaths_def using devicePaths_loop_entries [of p os 0 "[]"] by simp

lemma open_entries:
  assumes "(h, p) \<in> set (fst (openDeviceHandles os))"
  shows "h \<noteq> INVALID_HANDLE_VALUE \<and>
         (\<exists>k<length (fst (devicePaths os)). fst (devicePaths os) ! k = p \<and> CreateFile os k p = h)"
  using open_loop_entries [of h p os 0 "fst (devicePaths os)" "[]"] assms
  by (simp add: openDeviceHandles_def)

lemma map_of_open_key:
  "h \<in> set (map fst (fst (openDeviceHandles os))) \<Longrightarrow>
   \<exists>p. map_of (fst (openDeviceHandles os)) h = Some p"
  by (cases "map_of (fst (openDeviceHandles os)) h") (auto simp: map_of_eq_None_iff)

lemma map_of_attrs:
  "map_of (fst (handleAttributesMap os)) h =
     (if h \<in> set (map fst (fst (openDeviceHandles os)))
      then map_option to_hidAttributes (HidD_GetAttributes os h) else None)"
proof -
  have eq: "map_of (fst (handleAttributesMap os)) h =
      (case map_of (fst (openDeviceHandles os)) h of None \<Rightarrow> None
       | Some v \<Rightarrow> map_option snd (attributes_entry os (h, v)))"
    unfolding attrs_eq
    by (rule map_of_map_filter [OF attributes_entry_key open_distinct])
  show ?thesis
  proof (cases "map_of (fst (openDeviceHandles os)) h")
    case None
    moreover from None have "h \<notin> set (map fst (fst (openDeviceHandles os)))"
      by (simp add: map_of_eq_None_iff)
    ultimately show ?thesis using eq by simp
  next
    case (Some v)
    then have "(h, v) \<in> set (fst (openDeviceHandles os))" by (rule map_of_SomeD)
    then have "h \<in> set (map fst (fst (openDeviceHandles os)))" by force
    with Some eq show ?thesis
      by (simp add: attributes_entry_def option.map_comp comp_def)
  qed
qed

lemma map_of_blobs:
  "map_of (fst (handlePreparsedDataMap os)) h =
     (if h \<in> set (map fst (fst (openDeviceHandles os)))
      then HidD_GetPreparsedData os h else None)"
proof -
  have eq: "map_of (fst (handlePreparsedDataMap os)) h =
      (case map_of (fst (openDeviceHandles os)) h of None \<Rightarrow> None
       | Some v \<Rightarrow> map_option snd (blob_entry os (h, v)))"
    unfolding blobs_eq
    by (rule map_of_map_filter [OF blob_entry_key open_distinct])
  show ?thesis
  proof (cases "map_of (fst (openDeviceHandles os)) h")
    case None
    moreover from None have "h \<notin> set (map fst (fst (openDeviceHandles os)))"
      by (simp add: map_of_eq_None_iff)
    ultimately show ?thesis using eq by simp
  next
    case (Some v)
    then have "(h, v) \<in> set (fst (openDeviceHandles os))" by (rule map_of_SomeD)
    then have "h \<in> set (map fst (fst (openDeviceHandles os)))" by force
    with Some eq show ?thesis
      by (simp add: blob_entry_def option.map_comp comp_def option.map_ident)
  qed
qed

lemma blobs_distinct: "distinct (map fst (fst (handlePreparsedDataMap os)))"
  using blobs_sorted [of os] by (simp add: strict_sorted_iff)

lemma map_of_caps:
  "map_of (fst (devPathCapsMap os)) h =
     (if h \<in> set (map fst (fst (openDeviceHandles os)))
      then (case HidD_GetPreparsedData os h of
              None \<Rightarrow> None
            | Some blob \<Rightarrow>
                if fst (HidP_GetCaps os blob) = HIDP_STATUS_SUCCESS
                then Some (snd (HidP_GetCaps os blob)) else None)
      else None)"
proof -
  have "map_of (fst (devPathCapsMap os)) h =
      (case map_of (fst (handlePreparsedDataMap os)) h of None \<Rightarrow> None
       | Some v \<Rightarrow> map_option snd (caps_entry os (h, v)))"
    unfolding caps_eq
    by (rule map_of_map_filter [OF caps_entry_key blobs_distinct])
  then show ?thesis
    by (simp add: map_of_blobs caps_entry_def split: option.splits)
qed

lemma attrs_entry:
  assumes "e \<in> set (fst (handleAttributesMap os))"
  shows "fst e \<in> set (map fst (fst (openDeviceHandles os))) \<and>
         (\<exists>a. HidD_GetAttributes os (fst e) = Some a \<and> snd e = to_hidAttributes a)"
proof -
  have d: "distinct (map fst (fst (handleAttributesMap os)))"
    using attrs_sorted [of os] by (simp add: strict_sorted_iff)
  have "(fst e, snd e) \<in> set (fst (handleAttributesMap os))" using assms by simp
  from map_of_is_SomeI [OF d this]
  have "map_of (fst (handleAttributesMap os)) (fst e) = Some (snd e)" .
  then show ?thesis
    by (auto simp: map_of_attrs split: if_splits)
qed

lemma device_info_fully_queried:
  assumes e: "e \<in> set (fst (handleAttributesMap os))"
      and c: "map_of (fst (devPathCapsMap os)) (fst e) \<noteq> None"
      and m: "\<not> isl (manufacturer_string os (fst e))"
  shows "fully_queried os (fst e) (device_info os e)"
proof -
  from attrs_entry [OF e] obtain a where
    key: "fst e \<in> set (map fst (fst (openDeviceHandles os)))" and
    a: "HidD_GetAttributes os (fst e) = Some a" "snd e = to_hidAttributes a" by blast
  from map_of_open_key [OF key] obtain p where
    p: "map_of (fst (openDeviceHandles os)) (fst e) = Some p" by blast
  then have mem: "(fst e, p) \<in> set (fst (openDeviceHandles os))" by (rule map_of_SomeD)
  from open_entries [OF mem] have valid: "fst e \<noteq> INVALID_HANDLE_VALUE"
    and opened: "\<exists>k\<in>{0..<length (fst (devicePaths os))}.
        fst (devicePaths os) ! k = p \<and> CreateFile os k p = fst e"
    by auto
  from opened have "p \<in> set (fst (devicePaths os))" by auto
  from devicePaths_entries [OF this] have res: "p \<noteq> []"
    "\<exists>d\<in>set (DeviceInterfaces os). fst (GetDevicePath os d) = p" by auto
  from c key obtain blob where
    b: "HidD_GetPreparsedData os (fst e) = Some blob"
       "fst (HidP_GetCaps os blob) = HIDP_STATUS_SUCCESS"
       "map_of (fst (devPathCapsMap os)) (fst e) = Some (snd (HidP_GetCaps os blob))"
    by (auto simp: map_of_caps split: option.splits if_splits)
  from b(2) have caps: "HidP_GetCaps os blob = (HIDP_STATUS_SUCCESS, snd (HidP_GetCaps os blob))"
    by (cases "HidP_GetCaps os blob") simp
  from m have ms: "manufacturer_string os (fst e) = Inr (projr (manufacturer_string os (fst e)))"
    by simp
  show ?thesis
    unfolding fully_queried_def device_info_def
    using p mem valid opened res a b(1) b(3) caps ms by simp
qed

lemma normal_result:
  assumes "fst (try_block os) = Inr (Some l)"
  shows "l = map (device_info os) (fst (handleAttributesMap os))"
    and "\<forall>e\<in>set (fst (handleAttributesMap os)). fully_queried os (fst e) (device_info os e)"
proof -
  from assms have valid: "SetupDiGetClassDevs os \<noteq> INVALID_HANDLE_VALUE"
    and ms: "\<not> (\<exists>e\<in>set (fst (openDeviceHandles os)). isl (manufacturer_string os (fst e)))"
    and cs: "\<not> (\<exists>e\<in>set (fst (handleAttributesMap os)). map_of (fst (devPathCapsMap os)) (fst e) = None)"
    and l: "l = map (device_info os) (fst (handleAttributesMap os))"
    by (auto simp: try_block_value split: if_splits)
  show "l = map (device_info os) (fst (handleAttributesMap os))" by (rule l)
  show "\<forall>e\<in>set (fst (handleAttributesMap os)). fully_queried os (fst e) (device_info os e)"
  proof
    fix e assume e: "e \<in> set (fst (handleAttributesMap os))"
    with cs have c: "map_of (fst (devPathCapsMap os)) (fst e) \<noteq> None" by auto
    from attrs_entry [OF e] have "fst e \<in> set (map fst (fst (openDeviceHandles os)))" by simp
    then obtain e0 where "e0 \<in> set (fst (openDeviceHandles os))" "fst e0 = fst e" by auto
    with ms have "\<not> isl (manufacturer_string os (fst e))" by metis
    from device_info_fully_queried [OF e c this]
    show "fully_queried os (fst e) (device_info os e)" .
  qed
qed

lemma map_of_open_entry:
  "(h, p) \<in> set (fst (openDeviceHandles os)) \<Longrightarrow> map_of (fst (openDeviceHandles os)) h = Some p"
  by (rule map_of_is_SomeI [OF open_distinct])

lemma open_entry_key:
  "(h, p) \<in> set (fst (openDeviceHandles os)) \<Longrightarrow> h \<in> set (map fst (fst (openDeviceHandles os)))"
  by force

lemma attrs_member:
  assumes "(h, p) \<in> set (fst (openDeviceHandles os))" and "HidD_GetAttributes os h = Some a"
  shows "(h, to_hidAttributes a) \<in> set (fst (handleAttributesMap os))"
proof -
  from assms(2) open_entry_key [OF assms(1)]
  have "map_of (fst (handleAttributesMap os)) h = Some (to_hidAttributes a)"
    by (simp add: map_of_attrs)
  then show ?thesis by (rule map_of_SomeD)
qed

lemma missing_capabilities_empty_result:
  assumes "(hnd, p) \<in> set (fst (openDeviceHandles os))"
      and "HidD_GetAttributes os hnd = Some attribs"
      and "map_of (fst (devPathCapsMap os)) hnd = None"
  shows "listInstalledDevices os = []"
proof -
  from attrs_member [OF assms(1,2)] assms(3)
  have "\<exists>e\<in>set (fst (handleAttributesMap os)). map_of (fst (devPathCapsMap os)) (fst e) = None"
    by force
  then have "fst (try_block os) = Inr None \<or> fst (try_block os) = Inl out_of_range"
    by (simp add: try_block_value)
  then show ?thesis by (auto simp: listInstalledDevices_value)
qed

subsection \<open>The resources a call holds\<close>

lemma held_after_append: "held_after (xs @ ys) R = held_after ys (held_after xs R)"
  by (induction xs arbitrary: R) simp_all

lemma held_after_no_resource:
  "\<forall>c\<in>set cs. released_by c = None \<and> acquired_by c = None \<Longrightarrow> held_after cs R = R"
  by (induction cs arbitrary: R) simp_all

lemma GetDevicePath_calls:
  "\<forall>c\<in>set (snd (GetDevicePath os d)). released_by c = None \<and> acquired_by c = None"
  by (auto simp: GetDevicePath_def GetDevicePath_try_def Let_def split: option.splits)

lemma devicePaths_loop_calls:
  "\<forall>c\<in>set (snd (devicePaths_loop os i acc)). released_by c = None \<and> acquired_by c = None"
proof (induction os i acc rule: devicePaths_loop.induct)
  case (1 os memberIndex devPaths)
  show ?case
  proof (cases "SetupDiEnumDeviceInterfaces os memberIndex")
    case None
    then show ?thesis by simp
  next
    case (Some d)
    from "1.IH" [OF Some refl] GetDevicePath_calls [of os d] Some
    show ?thesis by (auto simp: Let_def)
  qed
qed

lemma names_loop_calls:
  "\<forall>c\<in>set (snd (hndManufacturerMap_loop os m acc)). released_by c = None \<and> acquired_by c = None"
  by (induction m arbitrary: acc) (auto simp: Let_def split: sum.splits)

lemma attrs_loop_calls:
  "\<forall>c\<in>set (snd (handleAttributesMap_loop os m acc)). released_by c = None \<and> acquired_by c = None"
  by (induction m arbitrary: acc) (auto simp: Let_def)

lemma caps_loop_calls:
  "\<forall>c\<in>set (snd (devPathCapsMap_loop os m acc)). released_by c = None \<and> acquired_by c = None"
  by (induction m arbitrary: acc) (auto simp: Let_def)

lemma open_loop_held:
  "held_after (snd (openDeviceHandles_loop os k ps acc)) R =
     R \<union> OpenHandle ` set (filter (\<lambda>h. h \<noteq> INVALID_HANDLE_VALUE)
            (map (\<lambda>kp. CreateFile os (fst kp) (snd kp)) (enumerate k ps)))"
  by (induction ps arbitrary: k acc R) (auto simp: Let_def)

lemma open_loop_keys:
  "set (map fst (fst (openDeviceHandles_loop os k ps acc))) =
     set (map fst acc) \<union> set (filter (\<lambda>h. h \<noteq> INVALID_HANDLE_VALUE)
            (map (\<lambda>kp. CreateFile os (fst kp) (snd kp)) (enumerate k ps)))"
proof (induction ps arbitrary: k acc)
  case Nil
  then show ?case by simp
next
  case (Cons q ps)
  show ?case
    using Cons [of "Suc k"] emplace_keys [of "CreateFile os k q" q acc]
    by (auto simp: Let_def)
qed

lemma open_keys: "set (map fst (fst (openDeviceHandles os))) = set (returned_handles os)"
  unfolding openDeviceHandles_def returned_handles_def
  using open_loop_keys [of os 0 "fst (devicePaths os)" "[]"] by simp

lemma open_held:
  "held_after (snd (openDeviceHandles os)) R =
     R \<union> OpenHandle ` set (map fst (fst (openDeviceHandles os)))"
  unfolding open_keys unfolding openDeviceHandles_def returned_handles_def
  by (rule open_loop_held)

lemma blobs_loop_held:
  "held_after (snd (handlePreparsedDataMap_loop os m acc)) R =
     R \<union> PreparsedData ` (snd ` set (List.map_filter (blob_entry os) m) - {0})"
  by (induction m arbitrary: acc R)
     (auto simp: Let_def blob_entry_def List.map_filter_simps split: option.splits)

lemma blobs_held:
  "held_after (snd (handlePreparsedDataMap os)) R =
     R \<union> PreparsedData ` (snd ` set (fst (handlePreparsedDataMap os)) - {0})"
  unfolding blobs_eq unfolding handlePreparsedDataMap_def by (rule blobs_loop_held)

lemma frees_held:
  "held_after (map (\<lambda>elem. Call_HidD_FreePreparsedData (snd elem)) xs) R =
     R - PreparsedData ` snd ` set xs"
  by (induction xs arbitrary: R) auto

lemma free_held:
  "held_after (free_handlePreparsedDataMap m) R = R - PreparsedData ` (snd ` set m - {0})"
proof -
  have "snd ` set (filter (\<lambda>elem. snd elem \<noteq> 0) (rev m)) = snd ` set m - {0}"
    by auto
  then show ?thesis
    unfolding free_handlePreparsedDataMap_def frees_held by simp
qed

lemma close_held:
  "held_after (CloseHandlesGuard m) R = R - OpenHandle ` fst ` set m"
  unfolding CloseHandlesGuard_def
  by (induction m arbitrary: R) auto

lemma os_calls_value:
  "os_calls os =
     (if SetupDiGetClassDevs os = INVALID_HANDLE_VALUE
      then [Call_SetupDiGetClassDevs (SetupDiGetClassDevs os)]
      else [Call_SetupDiGetClassDevs (SetupDiGetClassDevs os)] @ snd (devicePaths os)
             @ snd (openDeviceHandles os) @ snd (hndManufacturerMap os)
             @ (if isl (fst (hndManufacturerMap os)) then []
                else snd (handleAttributesMap os) @ snd (handlePreparsedDataMap os)
                       @ snd (devPathCapsMap os)
                       @ free_handlePreparsedDataMap (fst (handlePreparsedDataMap os)))
             @ CloseHandlesGuard (fst (openDeviceHandles os)))"
  by (simp add: os_calls_def GetlInstalledDevicesInfo_def try_block_def Let_def
      split: sum.splits prod.splits option.splits)

lemma held_after_os_calls:
  "held_after (os_calls os) {} =
     (if SetupDiGetClassDevs os = INVALID_HANDLE_VALUE then {}
      else {DeviceInfoSet (SetupDiGetClassDevs os)})"
proof (cases "SetupDiGetClassDevs os = INVALID_HANDLE_VALUE")
  case True
  then show ?thesis by (simp add: os_calls_value)
next
  case valid: False
  have paths: "\<And>R. held_after (snd (devicePaths os)) R = R"
    unfolding devicePaths_def by (rule held_after_no_resource [OF devicePaths_loop_calls])
  have names: "\<And>R. held_after (snd (hndManufacturerMap os)) R = R"
    unfolding hndManufacturerMap_def by (rule held_after_no_resource [OF names_loop_calls])
  have attrs: "\<And>R. held_after (snd (handleAttributesMap os)) R = R"
    unfolding handleAttributesMap_def by (rule held_after_no_resource [OF attrs_loop_calls])
  have caps: "\<And>R. held_after (snd (devPathCapsMap os)) R = R"
    unfolding devPathCapsMap_def by (rule held_after_no_resource [OF caps_loop_calls])
  show ?thesis
    using valid
    by (auto simp: os_calls_value held_after_append paths names attrs caps open_held blobs_held
        free_held close_held)
qed

lemma handles_and_blobs_released:
  "OpenHandle h \<notin> held_after (os_calls os) {} \<and> PreparsedData b \<notin> held_after (os_calls os) {}"
  by (simp add: held_after_os_calls)

subsection \<open>The result as a multiset of device records\<close>

lemma open_loop_mset:
  "distinct (map fst acc @ filter (\<lambda>h. h \<noteq> INVALID_HANDLE_VALUE)
       (map (\<lambda>kp. CreateFile os (fst kp) (snd kp)) (enumerate k ps))) \<Longrightarrow>
   mset (fst (openDeviceHandles_loop os k ps acc)) =
     mset acc + mset (filter (\<lambda>e. fst e \<noteq> INVALID_HANDLE_VALUE)
       (map (\<lambda>kp. (CreateFile os (fst kp) (snd kp), snd kp)) (enumerate k ps)))"
proof (induction ps arbitrary: k acc)
  case Nil
  then show ?case by simp
next
  case (Cons q ps)
  let ?h = "CreateFile os k q"
  let ?rest = "filter (\<lambda>h. h \<noteq> INVALID_HANDLE_VALUE)
       (map (\<lambda>kp. CreateFile os (fst kp) (snd kp)) (enumerate (Suc k) ps))"
  show ?case
  proof (cases "?h = INVALID_HANDLE_VALUE")
    case True
    with Cons.prems have "distinct (map fst acc @ ?rest)" by simp
    from Cons.IH [OF this] True show ?thesis by (simp add: Let_def)
  next
    case False
    with Cons.prems have d: "distinct (map fst acc @ ?h # ?rest)" by simp
    then have notin: "?h \<notin> set (map fst acc)" by auto
    have m: "mset (emplace ?h q acc) = add_mset (?h, q) (mset acc)"
      by (rule emplace_mset [OF notin])
    then have "mset (map fst (emplace ?h q acc)) = add_mset ?h (mset (map fst acc))"
      by (metis (no_types) fst_conv image_mset_add_mset mset_map)
    then have "mset (map fst (emplace ?h q acc) @ ?rest) = mset (map fst acc @ ?h # ?rest)"
      by simp
    from mset_eq_imp_distinct_iff [OF this] d
    have "distinct (map fst (emplace ?h q acc) @ ?rest)" by simp
    from Cons.IH [OF this] False m show ?thesis by (simp add: Let_def)
  qed
qed

lemma open_mset:
  "distinct_handles os \<Longrightarrow> mset (fst (openDeviceHandles os)) = mset (opened_entries os)"
  unfolding distinct_handles_def returned_handles_def openDeviceHandles_def opened_entries_def
  using open_loop_mset [of "[]" os 0 "fst (devicePaths os)"] by simp

lemma device_views_entries:
  "device_views os = map (\<lambda>e. (snd e, device_answers os (fst e))) (opened_entries os)"
proof -
  have "List.map_filter (device_view os) xs =
      map (\<lambda>e. (snd e, device_answers os (fst e)))
        (filter (\<lambda>e. fst e \<noteq> INVALID_HANDLE_VALUE)
          (map (\<lambda>kp. (CreateFile os (fst kp) (snd kp), snd kp)) xs))" for xs
    by (induction xs) (simp_all add: List.map_filter_simps device_view_def Let_def)
  then show ?thesis by (simp add: device_views_def opened_entries_def)
qed

lemma mset_map_filter_cong:
  assumes "mset xs = mset ys"
  shows "mset (List.map_filter f xs) = mset (List.map_filter f ys)"
proof -
  have "mset (List.map_filter f zs) =
      image_mset (the \<circ> f) (filter_mset (\<lambda>x. f x \<noteq> None) (mset zs))" for zs
    by (simp add: List.map_filter_def)
  with assms show ?thesis by simp
qed

lemma map_map_filter: "map g (List.map_filter f xs) = List.map_filter (\<lambda>x. map_option g (f x)) xs"
  by (induction xs) (auto simp: List.map_filter_simps split: option.splits)

lemma map_filter_map: "List.map_filter f (map g xs) = List.map_filter (\<lambda>x. f (g x)) xs"
  by (induction xs) (auto simp: List.map_filter_simps split: option.splits)

lemma map_filter_cong_set:
  "(\<And>x. x \<in> set xs \<Longrightarrow> f x = g x) \<Longrightarrow> List.map_filter f xs = List.map_filter g xs"
  by (induction xs) (auto simp: List.map_filter_simps split: option.splits)

lemma device_info_of_entry:
  assumes "e \<in> set (fst (openDeviceHandles os))"
  shows "map_option (device_info os) (attributes_entry os e) =
           record_of_view (snd e, device_answers os (fst e))"
proof -
  obtain h p where e: "e = (h, p)" by (cases e)
  with assms have mem: "(h, p) \<in> set (fst (openDeviceHandles os))" by simp
  have p: "map_of (fst (openDeviceHandles os)) h = Some p" by (rule map_of_open_entry [OF mem])
  have c: "map_of (fst (devPathCapsMap os)) h = snd (snd (device_answers os h))"
    using open_entry_key [OF mem] by (simp add: map_of_caps device_answers_def)
  show ?thesis
    by (cases "HidD_GetAttributes os h")
       (simp_all add: e attributes_entry_def record_of_view_def device_info_def p c
          device_answers_def)
qed

lemma normal_result_views:
  "map (device_info os) (fst (handleAttributesMap os)) =
     List.map_filter record_of_view
       (map (\<lambda>e. (snd e, device_answers os (fst e))) (fst (openDeviceHandles os)))"
  unfolding attrs_eq map_map_filter map_filter_map
  by (rule map_filter_cong_set) (rule device_info_of_entry)

lemma manufacturer_fault_views:
  "(\<exists>e\<in>set (fst (openDeviceHandles os)). isl (manufacturer_string os (fst e))) =
   (\<exists>v\<in>set (map (\<lambda>e. (snd e, device_answers os (fst e))) (fst (openDeviceHandles os))).
       isl (fst (snd v)))"
  by (simp add: device_answers_def)

lemma capabilities_fault_views:
  "(\<exists>e\<in>set (fst (handleAttributesMap os)). map_of (fst (devPathCapsMap os)) (fst e) = None) =
   (\<exists>v\<in>set (map (\<lambda>e. (snd e, device_answers os (fst e))) (fst (openDeviceHandles os))).
       fst (snd (snd v)) \<noteq> None \<and> snd (snd (snd v)) = None)"
proof
  assume "\<exists>e\<in>set (fst (handleAttributesMap os)). map_of (fst (devPathCapsMap os)) (fst e) = None"
  then obtain e where e: "e \<in> set (fst (handleAttributesMap os))"
    and none: "map_of (fst (devPathCapsMap os)) (fst e) = None" by auto
  from attrs_entry [OF e] obtain a where
    key: "fst e \<in> set (map fst (fst (openDeviceHandles os)))" and
    a: "HidD_GetAttributes os (fst e) = Some a" by auto
  from key obtain e0 where e0: "e0 \<in> set (fst (openDeviceHandles os))" "fst e0 = fst e" by auto
  from none key have "snd (snd (device_answers os (fst e))) = None"
    by (simp add: map_of_caps device_answers_def)
  with a e0 show "\<exists>v\<in>set (map (\<lambda>e. (snd e, device_answers os (fst e))) (fst (openDeviceHandles os))).
       fst (snd (snd v)) \<noteq> None \<and> snd (snd (snd v)) = None"
    by (auto simp: device_answers_def intro!: bexI [of _ e0])
next
  assume "\<exists>v\<in>set (map (\<lambda>e. (snd e, device_answers os (fst e))) (fst (openDeviceHandles os))).
       fst (snd (snd v)) \<noteq> None \<and> snd (snd (snd v)) = None"
  then obtain h p where mem: "(h, p) \<in> set (fst (openDeviceHandles os))"
    and a: "HidD_GetAttributes os h \<noteq> None"
    and c: "snd (snd (device_answers os h)) = None"
    by (auto simp: device_answers_def)
  from a obtain at where at: "HidD_GetAttributes os h = Some at" by auto
  from c open_entry_key [OF mem] have "map_of (fst (devPathCapsMap os)) h = None"
    by (simp add: map_of_caps device_answers_def)
  with attrs_member [OF mem at]
  show "\<exists>e\<in>set (fst (handleAttributesMap os)). map_of (fst (devPathCapsMap os)) (fst e) = None"
    by force
qed

lemma result_mset_views:
  assumes "distinct_handles os"
  shows "mset (listInstalledDevices os) =
           records_of_views (SetupDiGetClassDevs os = INVALID_HANDLE_VALUE) (device_views os)"
proof -
  let ?g = "\<lambda>e. (snd e, device_answers os (fst e))"
  let ?O = "fst (openDeviceHandles os)"
  have ms: "mset (map ?g ?O) = mset (device_views os)"
    unfolding device_views_entries using open_mset [OF assms] by (metis mset_map)
  then have st: "set (map ?g ?O) = set (device_views os)" by (rule mset_eq_setD)
  have recs: "mset (List.map_filter record_of_view (map ?g ?O)) =
      mset (List.map_filter record_of_view (device_views os))"
    by (rule mset_map_filter_cong [OF ms])
  let ?M = "\<exists>v\<in>set (device_views os). isl (fst (snd v))"
  let ?C = "\<exists>v\<in>set (device_views os). fst (snd (snd v)) \<noteq> None \<and> snd (snd (snd v)) = None"
  have tb: "fst (try_block os) =
      (if SetupDiGetClassDevs os = INVALID_HANDLE_VALUE then Inr None
       else if ?M then Inl out_of_range
       else if ?C then Inl out_of_range
       else Inr (Some (List.map_filter record_of_view (map ?g ?O))))"
    unfolding try_block_value manufacturer_fault_views capabilities_fault_views
      normal_result_views st by (rule refl)
  show ?thesis
  proof (cases "SetupDiGetClassDevs os = INVALID_HANDLE_VALUE \<or> ?M \<or> ?C")
    case True
    then have "mset (listInstalledDevices os) = {#}"
      unfolding listInstalledDevices_value tb by auto
    with True show ?thesis unfolding records_of_views_def by simp
  next
    case False
    then have n1: "SetupDiGetClassDevs os \<noteq> INVALID_HANDLE_VALUE" and n2: "\<not> ?M" and n3: "\<not> ?C"
      by simp_all
    have "fst (try_block os) = Inr (Some (List.map_filter record_of_view (map ?g ?O)))"
      unfolding tb using n1 n2 n3 by (simp only: if_False)
    then have "listInstalledDevices os = List.map_filter record_of_view (map ?g ?O)"
      unfolding listInstalledDevices_value by simp
    moreover have "records_of_views (SetupDiGetClassDevs os = INVALID_HANDLE_VALUE) (device_views os) =
        mset (List.map_filter record_of_view (device_views os))"
      unfolding records_of_views_def using n1 n2 n3 by (simp only: if_False simp_thms)
    ultimately show ?thesis using recs by simp
  qed
qed

lemma opened_entries_member:
  assumes "k < length (fst (devicePaths os))"
      and "CreateFile os k (fst (devicePaths os) ! k) \<noteq> INVALID_HANDLE_VALUE"
  shows "(CreateFile os k (fst (devicePaths os) ! k), fst (devicePaths os) ! k) \<in> set (opened_entries os)"
proof -
  let ?ps = "fst (devicePaths os)"
  from assms(1) have "(k, ?ps ! k) \<in> set (enumerate 0 ?ps)"
    by (simp add: in_set_enumerate_eq)
  then have "(CreateFile os k (?ps ! k), ?ps ! k) \<in>
      set (map (\<lambda>kp. (CreateFile os (fst kp) (snd kp), snd kp)) (enumerate 0 ?ps))"
    by force
  with assms(2) show ?thesis by (simp add: opened_entries_def)
qed

lemma open_member:
  assumes "distinct_handles os"
      and "k < length (fst (devicePaths os))"
      and "CreateFile os k (fst (devicePaths os) ! k) \<noteq> INVALID_HANDLE_VALUE"
  shows "(CreateFile os k (fst (devicePaths os) ! k), fst (devicePaths os) ! k)
           \<in> set (fst (openDeviceHandles os))"
  using opened_entries_member [OF assms(2,3)] mset_eq_setD [OF open_mset [OF assms(1)]] by simp

subsection \<open>The paths found, and a system without one interface entry\<close>














subsection \<open>A manufacturer string with a terminator\<close>

lemma of_nat_not_npos: "n < 2 ^ 64 - 1 \<Longrightarrow> (of_nat n :: size_t) \<noteq> npos"
proof -
  assume a: "n < 2 ^ 64 - 1"
  then have "n mod 2 ^ 64 = n" by simp
  then have u: "unat (of_nat n :: size_t) = n" by (simp add: unat_of_nat)
  have m: "unat (- 1 :: size_t) = 2 ^ 64 - 1"
    by (simp add: unsigned_minus_1_eq_mask mask_eq_exp_minus_1)
  from a u m show ?thesis unfolding npos_def by auto
qed

lemma find_first_of_present:
  "c \<in> set str \<Longrightarrow> length str < 2 ^ 64 - 1 \<Longrightarrow>
   find_first_of str c = of_nat (length (takeWhile (\<lambda>x. x \<noteq> c) str))"
proof (induction str)
  case Nil
  then show ?case by simp
next
  case (Cons x xs)
  show ?case
  proof (cases "x = c")
    case True
    then show ?thesis by simp
  next
    case False
    with Cons.prems have mem: "c \<in> set xs" and len: "length xs < 2 ^ 64 - 1" by auto
    let ?k = "length (takeWhile (\<lambda>x. x \<noteq> c) xs)"
    from Cons.IH [OF mem len] have r: "find_first_of xs c = of_nat ?k" .
    have "?k \<le> length xs" by (rule length_takeWhile_le)
    with len have "?k < 2 ^ 64 - 1" by simp
    then have "(of_nat ?k :: size_t) \<noteq> npos" by (rule of_nat_not_npos)
    with r False show ?thesis by (simp add: Let_def)
  qed
qed

lemma erase_within:
  "n \<le> length str \<Longrightarrow> length str < 2 ^ 64 - 1 \<Longrightarrow> erase str (of_nat n) = Inr (take n str)"
proof -
  assume n: "n \<le> length str" and len: "length str < 2 ^ 64 - 1"
  then have "n mod 2 ^ 64 = n" and "length str mod 2 ^ 64 = length str" by simp_all
  then have u: "unat (of_nat n :: size_t) = n" "unat (of_nat (length str) :: size_t) = length str"
    by (simp_all add: unat_of_nat)
  with n have "\<not> (of_nat (length str) :: size_t) < of_nat n"
    by (simp add: word_less_nat_alt)
  with u show ?thesis by (simp add: erase_def)
qed

lemma manufacturer_string_terminated:
  assumes "0 \<in> set (buffer_after (replicate MAX_USB_DEVICE_STR_LEN 0)
                     (snd (HidD_GetManufacturerString os hnd)))"
  shows "\<not> isl (manufacturer_string os hnd)"
proof -
  let ?str = "buffer_after (replicate MAX_USB_DEVICE_STR_LEN 0)
                (snd (HidD_GetManufacturerString os hnd))"
  have "length ?str = MAX_USB_DEVICE_STR_LEN"
    by (auto simp: buffer_after_def)
  then have len: "length ?str < 2 ^ 64 - 1" by (simp add: MAX_USB_DEVICE_STR_LEN_def)
  have k: "length (takeWhile (\<lambda>x. x \<noteq> 0) ?str) \<le> length ?str" by (rule length_takeWhile_le)
  show ?thesis
    unfolding manufacturer_string_def Let_def
      find_first_of_present [OF assms len] erase_within [OF k len]
    by simp
qed

lemma no_exception_normal_result:
  assumes "SetupDiGetClassDevs os \<noteq> INVALID_HANDLE_VALUE"
      and "\<forall>elem\<in>set (fst (openDeviceHandles os)). no_exception_for os (fst elem)"
  shows "fst (try_block os) = Inr (Some (map (device_info os) (fst (handleAttributesMap os))))"
proof -
  have m: "\<not> (\<exists>e\<in>set (fst (openDeviceHandles os)). isl (manufacturer_string os (fst e)))"
    using assms(2) manufacturer_string_terminated by (auto simp: no_exception_for_def)
  have c: "\<not> (\<exists>e\<in>set (fst (handleAttributesMap os)).
               map_of (fst (devPathCapsMap os)) (fst e) = None)"
  proof
    assume "\<exists>e\<in>set (fst (handleAttributesMap os)). map_of (fst (devPathCapsMap os)) (fst e) = None"
    then obtain e where e: "e \<in> set (fst (handleAttributesMap os))"
      and none: "map_of (fst (devPathCapsMap os)) (fst e) = None" by auto
    from attrs_entry [OF e] obtain a where
      key: "fst e \<in> set (map fst (fst (openDeviceHandles os)))" and
      a: "HidD_GetAttributes os (fst e) = Some a" by auto
    from key obtain e0 where "e0 \<in> set (fst (openDeviceHandles os))" "fst e0 = fst e" by auto
    with assms(2) have "no_exception_for os (fst e)" by metis
    with a key have "map_of (fst (devPathCapsMap os)) (fst e) \<noteq> None"
      by (auto simp: no_exception_for_def map_of_caps split: option.splits)
    with none show False by simp
  qed
  show ?thesis
    unfolding try_block_value using assms(1) m c by (simp only: if_False)
qed




section \<open>The example states, evaluated\<close>


lemma attributes_failure_result: "listInstalledDevices attributes_failure = [recordB]"
  by code_simp

lemma attributes_failure_open:
  "fst (openDeviceHandles attributes_failure) = [(0x10, pathB), (0x20, pathA)]"
  by code_simp

lemma two_devices_attrs:
  "map fst (fst (handleAttributesMap two_devices)) = [0x10, 0x20]"
  by code_simp

lemma two_devices_open:
  "fst (openDeviceHandles two_devices) = [(0x10, pathB), (0x20, pathA)]"
  by code_simp

lemma two_devices_later_result: "listInstalledDevices two_devices_later = [recordA, recordB]"
  by code_simp

lemma two_devices_result: "listInstalledDevices two_devices = [recordB, recordA]"
  by code_simp

lemma two_devices_same: "same_devices two_devices two_devices_later"
  by code_simp

lemma two_devices_distinct: "distinct_handles two_devices"
  by code_simp

lemma two_devices_later_distinct: "distinct_handles two_devices_later"
  by code_simp

lemma same_path_twice_returns:
  "fst (try_block same_path_twice) = Inr (Some [recordA, recordA])"
  by code_simp

lemma same_path_twice_distinct: "distinct_handles same_path_twice"
  by code_simp

lemma same_path_twice_paths: "fst (devicePaths same_path_twice) = [pathA, pathA]"
  by code_simp




lemma two_devices_valid: "SetupDiGetClassDevs two_devices \<noteq> INVALID_HANDLE_VALUE"
  by code_simp

lemma two_devices_no_exception:
  "\<forall>elem\<in>set (fst (openDeviceHandles two_devices)). no_exception_for two_devices (fst elem)"
  by code_simp

section \<open>The claims of the specification\<close>

text \<open>
  C1. The claim: when the blob or capability query fails for one device while
  the other devices are fully queryable, only that device is dropped and the
  records of the others are returned. The code at the state \<open>blob_failure\<close>: the
  attributes query of the first device succeeds and its blob query fails, the
  second device is fully queried, the \<^verbatim>\<open>at\<close> lookup of the capabilities in the
  final loop throws, and the call returns no record at all.
\<close>

theorem blob_failure_drops_every_device:
  "HidD_GetAttributes blob_failure 0x20 \<noteq> None \<and>
   HidD_GetPreparsedData blob_failure 0x20 = None \<and>
   fully_queried blob_failure 0x10 recordB \<and>
   fst (try_block blob_failure) = Inl out_of_range \<and>
   listInstalledDevices blob_failure = []"
  by code_simp

text \<open>
  C2. The claim: every resource acquired during a call, the device-information
  set included, is released when the call returns. The code at the state
  \<open>two_devices\<close>: the set obtained by \<^verbatim>\<open>SetupDiGetClassDevs\<close> is never handed to
  \<^verbatim>\<open>SetupDiDestroyDeviceInfoList\<close>, and it is what the call still holds when it
  returns. (The handles and the blobs are released on every path:
  \<open>handles_and_blobs_released\<close>.)
\<close>

theorem device_information_set_stays_held:
  "Call_SetupDiGetClassDevs 0x500 \<in> set (os_calls two_devices) \<and>
   Call_SetupDiDestroyDeviceInfoList 0x500 \<notin> set (os_calls two_devices) \<and>
   held_after (os_calls two_devices) {} = {DeviceInfoSet 0x500}"
  by code_simp




text \<open>
  C4. Every record of the result belongs to a device for which every stage
  succeeded: there is a handle for which the record is \<open>fully_queried\<close>, that is,
  the path was resolved, the open returned the handle, and the attributes, the
  preparsed blob and the capabilities were obtained for it. In particular a device
  (a path \<open>p\<close>) whose attributes query fails on every handle opened for it has no
  record in the result, whatever its manufacturer and capability queries answer.
\<close>

theorem every_record_is_fully_queried:
  "(\<forall>r\<in>set (listInstalledDevices os). \<exists>hnd. fully_queried os hnd r) \<and>
   ((\<forall>hnd. (hnd, p) \<in> set (fst (openDeviceHandles os)) \<longrightarrow> HidD_GetAttributes os hnd = None) \<longrightarrow>
      (\<forall>r\<in>set (listInstalledDevices os). path r \<noteq> p))"
proof -
  have all: "\<forall>r\<in>set (listInstalledDevices os). \<exists>hnd. fully_queried os hnd r"
  proof (cases "fst (try_block os)")
    case (Inl e)
    then show ?thesis by (simp add: listInstalledDevices_value)
  next
    case (Inr ol)
    show ?thesis
    proof (cases ol)
      case None
      with Inr show ?thesis by (simp add: listInstalledDevices_value)
    next
      case (Some l)
      with Inr have t: "fst (try_block os) = Inr (Some l)" by simp
      from normal_result [OF t] t show ?thesis
        by (auto simp: listInstalledDevices_value)
    qed
  qed
  moreover have "\<forall>r\<in>set (listInstalledDevices os). path r \<noteq> p"
    if none: "\<forall>hnd. (hnd, p) \<in> set (fst (openDeviceHandles os)) \<longrightarrow> HidD_GetAttributes os hnd = None"
  proof
    fix r assume "r \<in> set (listInstalledDevices os)"
    with all obtain hnd where "fully_queried os hnd r" by blast
    then have "(hnd, path r) \<in> set (fst (openDeviceHandles os))"
      and "HidD_GetAttributes os hnd \<noteq> None"
      by (auto simp: fully_queried_def split: option.splits)
    with none show "path r \<noteq> p" by auto
  qed
  ultimately show ?thesis by blast
qed

theorem every_record_is_fully_queried_witness:
  "listInstalledDevices attributes_failure = [recordB] \<and>
   (\<exists>hnd. fully_queried attributes_failure hnd recordB) \<and>
   (0x20, pathA) \<in> set (fst (openDeviceHandles attributes_failure)) \<and>
   HidD_GetAttributes attributes_failure 0x20 = None \<and>
   pathA \<notin> path ` set (listInstalledDevices attributes_failure)"
proof -
  have none: "\<forall>hnd. (hnd, pathA) \<in> set (fst (openDeviceHandles attributes_failure)) \<longrightarrow>
      HidD_GetAttributes attributes_failure hnd = None"
    by (simp add: attributes_failure_open pathA_def pathB_def) (simp add: attributes_failure_def)
  have mem: "recordB \<in> set (listInstalledDevices attributes_failure)"
    by (simp add: attributes_failure_result)
  from every_record_is_fully_queried [of attributes_failure pathA] none mem
  have "(\<exists>hnd. fully_queried attributes_failure hnd recordB) \<and>
        pathA \<notin> path ` set (listInstalledDevices attributes_failure)"
    by auto
  moreover have "HidD_GetAttributes attributes_failure 0x20 = None"
    by (simp add: attributes_failure_def)
  ultimately show ?thesis
    by (simp add: attributes_failure_result attributes_failure_open)
qed

text \<open>
  C5 (as amended). A device whose manufacturer query fails without writing into
  the buffer (the call returns FALSE and the buffer stays zero-filled), while its
  attributes query, its blob query and its capability parse succeed, is in the
  result, with the empty string as manufacturer. This is for a call that does not
  end by an exception: discovery gave a device-information set, and for every open
  handle the buffer holds a null after the manufacturer query and, if the handle
  has attributes, it has capabilities too (\<open>no_exception_for\<close>).
\<close>

theorem manufacturer_failure_keeps_device:
  assumes "SetupDiGetClassDevs os \<noteq> INVALID_HANDLE_VALUE"
      and "\<forall>elem\<in>set (fst (openDeviceHandles os)). no_exception_for os (fst elem)"
      and "(hnd, p) \<in> set (fst (openDeviceHandles os))"
      and "HidD_GetManufacturerString os hnd = (False, [])"
      and "HidD_GetAttributes os hnd = Some attribs"
      and "HidD_GetPreparsedData os hnd = Some blob"
      and "HidP_GetCaps os blob = (HIDP_STATUS_SUCCESS, caps)"
  shows "\<lparr>path = p, manufacturer = [], attributes = to_hidAttributes attribs,
          capabilities = caps\<rparr> \<in> set (listInstalledDevices os)"
proof -
  let ?e = "(hnd, to_hidAttributes attribs)"
  have t: "fst (try_block os) = Inr (Some (map (device_info os) (fst (handleAttributesMap os))))"
    by (rule no_exception_normal_result [OF assms(1) assms(2)])
  have mem: "?e \<in> set (fst (handleAttributesMap os))"
    by (rule attrs_member [OF assms(3) assms(5)])
  have m: "manufacturer_string os hnd = Inr []"
    by (rule manufacturer_string_nothing_written) (simp add: assms(4))
  have c: "map_of (fst (devPathCapsMap os)) hnd = Some caps"
    using assms(6,7) open_entry_key [OF assms(3)] by (simp add: map_of_caps)
  have "device_info os ?e =
      \<lparr>path = p, manufacturer = [], attributes = to_hidAttributes attribs, capabilities = caps\<rparr>"
    by (simp add: device_info_def map_of_open_entry [OF assms(3)] m c)
  moreover from mem have "device_info os ?e \<in> set (map (device_info os) (fst (handleAttributesMap os)))"
    by simp
  ultimately show ?thesis using t by (simp add: listInstalledDevices_value)
qed

theorem manufacturer_failure_keeps_device_witness:
  "SetupDiGetClassDevs two_devices \<noteq> INVALID_HANDLE_VALUE \<and>
   list_all (\<lambda>elem. no_exception_for two_devices (fst elem)) (fst (openDeviceHandles two_devices)) \<and>
   (0x10, pathB) \<in> set (fst (openDeviceHandles two_devices)) \<and>
   HidD_GetManufacturerString two_devices 0x10 = (False, []) \<and>
   HidD_GetAttributes two_devices 0x10 =
     Some \<lparr>VendorID = 0x1111, ProductID = 0x2222, VersionNumber = 0x0001\<rparr> \<and>
   HidD_GetPreparsedData two_devices 0x10 = Some 0x9100 \<and>
   HidP_GetCaps two_devices 0x9100 = (HIDP_STATUS_SUCCESS, capsB) \<and>
   \<lparr>path = pathB, manufacturer = [],
    attributes = to_hidAttributes \<lparr>VendorID = 0x1111, ProductID = 0x2222, VersionNumber = 0x0001\<rparr>,
    capabilities = capsB\<rparr> \<in> set (listInstalledDevices two_devices)"
proof -
  have h3: "(0x10, pathB) \<in> set (fst (openDeviceHandles two_devices))"
    by (simp add: two_devices_open)
  have h4: "HidD_GetManufacturerString two_devices 0x10 = (False, [])"
    by (simp add: two_devices_def)
  have h5: "HidD_GetAttributes two_devices 0x10 =
      Some \<lparr>VendorID = 0x1111, ProductID = 0x2222, VersionNumber = 0x0001\<rparr>"
    by (simp add: two_devices_def)
  have h6: "HidD_GetPreparsedData two_devices 0x10 = Some 0x9100"
    by (simp add: two_devices_def)
  have h7: "HidP_GetCaps two_devices 0x9100 = (HIDP_STATUS_SUCCESS, capsB)"
    by (simp add: two_devices_def)
  have all: "list_all (\<lambda>elem. no_exception_for two_devices (fst elem))
      (fst (openDeviceHandles two_devices))"
    using two_devices_no_exception by (simp add: list_all_iff)
  from manufacturer_failure_keeps_device
         [OF two_devices_valid two_devices_no_exception h3 h4 h5 h6 h7]
    two_devices_valid all h3 h4 h5 h6 h7
  show ?thesis by simp
qed

text \<open>
  C5 as it is written, for every manufacturer query that fails, fails at the
  state \<open>manufacturer_failure_with_output\<close>: the query returns FALSE after the
  driver wrote one letter and a null, the other queries succeed, and the device is
  in the result with that letter as manufacturer, because the code does not look
  at the return value of the query.
\<close>

theorem manufacturer_failure_with_output_kept:
  "(0x10, pathB) \<in> set (fst (openDeviceHandles manufacturer_failure_with_output)) \<and>
   HidD_GetManufacturerString manufacturer_failure_with_output 0x10 = (False, [0x58, 0]) \<and>
   HidD_GetAttributes manufacturer_failure_with_output 0x10 =
     Some \<lparr>VendorID = 0x1111, ProductID = 0x2222, VersionNumber = 0x0001\<rparr> \<and>
   HidD_GetPreparsedData manufacturer_failure_with_output 0x10 = Some 0x9100 \<and>
   HidP_GetCaps manufacturer_failure_with_output 0x9100 = (HIDP_STATUS_SUCCESS, capsB) \<and>
   listInstalledDevices manufacturer_failure_with_output =
     [recordB\<lparr>manufacturer := [0x58]\<rparr>, recordA\<lparr>manufacturer := [0x58]\<rparr>]"
  by code_simp

text \<open>
  C6. If the discovery call reports no device-interface set (it returns
  \<^verbatim>\<open>INVALID_HANDLE_VALUE\<close>), \<^verbatim>\<open>listInstalledDevices\<close> returns the empty sequence
  at once: the discovery call is the only API call of the run, so no per-device
  query is made.
\<close>

theorem no_device_set_returns_empty_at_once:
  "SetupDiGetClassDevs os = INVALID_HANDLE_VALUE \<Longrightarrow>
   GetlInstalledDevicesInfo os = ([], [Call_SetupDiGetClassDevs INVALID_HANDLE_VALUE])"
  by (simp add: GetlInstalledDevicesInfo_def try_block_def)

theorem no_device_set_returns_empty_at_once_witness:
  "SetupDiGetClassDevs no_device_set = INVALID_HANDLE_VALUE \<and>
   GetlInstalledDevicesInfo no_device_set = ([], [Call_SetupDiGetClassDevs INVALID_HANDLE_VALUE])"
proof -
  have h: "SetupDiGetClassDevs no_device_set = INVALID_HANDLE_VALUE"
    by (simp add: no_device_set_def)
  show ?thesis
    by (rule conjI [OF h no_device_set_returns_empty_at_once [OF h]])
qed

text \<open>
  C7 (as amended). If discovery yields the same device path twice (at positions
  \<open>i\<close> and \<open>j\<close> of \<open>devicePaths\<close>), both opens succeed with different handle
  values, the attributes query succeeds on both handles and the call does not end
  by an exception, then the result has two entries for that path, at different
  positions, one made from each handle: nothing removes duplicates by path. (The
  call is given no handle value twice, as on a running system.)
\<close>

theorem same_path_twice_gives_two_entries:
  assumes "fst (try_block os) = Inr (Some l)"
      and "distinct_handles os"
      and "i < j" and "j < length (fst (devicePaths os))"
      and "fst (devicePaths os) ! i = p" and "fst (devicePaths os) ! j = p"
      and "CreateFile os i p \<noteq> INVALID_HANDLE_VALUE"
      and "CreateFile os j p \<noteq> INVALID_HANDLE_VALUE"
      and "CreateFile os i p \<noteq> CreateFile os j p"
      and "HidD_GetAttributes os (CreateFile os i p) \<noteq> None"
      and "HidD_GetAttributes os (CreateFile os j p) \<noteq> None"
  shows "listInstalledDevices os = l \<and>
         (\<exists>a b. a \<noteq> b \<and> a < length l \<and> b < length l \<and>
                path (l ! a) = p \<and> path (l ! b) = p \<and>
                fully_queried os (CreateFile os i p) (l ! a) \<and>
                fully_queried os (CreateFile os j p) (l ! b))"
proof -
  let ?A = "fst (handleAttributesMap os)"
  have entry: "\<exists>a<length ?A. fst (?A ! a) = CreateFile os k p \<and>
                  fully_queried os (CreateFile os k p) (l ! a) \<and> path (l ! a) = p"
    if k: "k < length (fst (devicePaths os))" "fst (devicePaths os) ! k = p"
          "CreateFile os k p \<noteq> INVALID_HANDLE_VALUE"
          "HidD_GetAttributes os (CreateFile os k p) \<noteq> None" for k
  proof -
    from open_member [OF assms(2) k(1)] k(2,3)
    have mem: "(CreateFile os k p, p) \<in> set (fst (openDeviceHandles os))" by simp
    from k(4) obtain at where "HidD_GetAttributes os (CreateFile os k p) = Some at" by auto
    from attrs_member [OF mem this]
    obtain a where a: "a < length ?A" "?A ! a = (CreateFile os k p, to_hidAttributes at)"
      by (auto simp: in_set_conv_nth)
    from a(1) have "?A ! a \<in> set ?A" by simp
    with normal_result(2) [OF assms(1)] a(2)
    have fq: "fully_queried os (CreateFile os k p) (device_info os (?A ! a))" by force
    from normal_result(1) [OF assms(1)] a(1) have la: "l ! a = device_info os (?A ! a)" by simp
    have "path (device_info os (?A ! a)) = p"
      by (simp add: device_info_def a(2) map_of_open_entry [OF mem])
    with fq la a show ?thesis by auto
  qed
  from assms(3,4) have i: "i < length (fst (devicePaths os))" by simp
  from entry [OF i assms(5) assms(7) assms(10)] obtain a where
    a: "a < length ?A" "fst (?A ! a) = CreateFile os i p"
       "fully_queried os (CreateFile os i p) (l ! a)" "path (l ! a) = p" by blast
  from entry [OF assms(4) assms(6) assms(8) assms(11)] obtain b where
    b: "b < length ?A" "fst (?A ! b) = CreateFile os j p"
       "fully_queried os (CreateFile os j p) (l ! b)" "path (l ! b) = p" by blast
  from a(2) b(2) assms(9) have "a \<noteq> b" by auto
  moreover from normal_result(1) [OF assms(1)] have "length l = length ?A" by simp
  ultimately show ?thesis
    using a b assms(1) by (auto simp: listInstalledDevices_value)
qed

theorem same_path_twice_gives_two_entries_witness:
  "fst (try_block same_path_twice) = Inr (Some [recordA, recordA]) \<and>
   distinct_handles same_path_twice \<and>
   fst (devicePaths same_path_twice) = [pathA, pathA] \<and>
   CreateFile same_path_twice 0 pathA = 0x20 \<and>
   CreateFile same_path_twice 1 pathA = 0x10 \<and>
   listInstalledDevices same_path_twice = [recordA, recordA] \<and>
   (\<exists>a b. a \<noteq> b \<and> a < length [recordA, recordA] \<and> b < length [recordA, recordA] \<and>
          path ([recordA, recordA] ! a) = pathA \<and> path ([recordA, recordA] ! b) = pathA \<and>
          fully_queried same_path_twice (CreateFile same_path_twice 0 pathA) ([recordA, recordA] ! a) \<and>
          fully_queried same_path_twice (CreateFile same_path_twice 1 pathA) ([recordA, recordA] ! b))"
proof -
  have h3: "(0::nat) < 1" by simp
  have h4: "1 < length (fst (devicePaths same_path_twice))"
    by (simp add: same_path_twice_paths)
  have h5: "fst (devicePaths same_path_twice) ! 0 = pathA"
    by (simp add: same_path_twice_paths)
  have h6: "fst (devicePaths same_path_twice) ! 1 = pathA"
    by (simp add: same_path_twice_paths)
  have c0: "CreateFile same_path_twice 0 pathA = 0x20"
    by code_simp
  have c1: "CreateFile same_path_twice 1 pathA = 0x10"
    by code_simp
  have h7: "CreateFile same_path_twice 0 pathA \<noteq> INVALID_HANDLE_VALUE"
    by code_simp
  have h8: "CreateFile same_path_twice 1 pathA \<noteq> INVALID_HANDLE_VALUE"
    by code_simp
  have h9: "CreateFile same_path_twice 0 pathA \<noteq> CreateFile same_path_twice 1 pathA"
    by code_simp
  have h10: "HidD_GetAttributes same_path_twice (CreateFile same_path_twice 0 pathA) \<noteq> None"
    by code_simp
  have h11: "HidD_GetAttributes same_path_twice (CreateFile same_path_twice 1 pathA) \<noteq> None"
    by code_simp
  from same_path_twice_gives_two_entries
         [OF same_path_twice_returns same_path_twice_distinct h3 h4 h5 h6 h7 h8 h9 h10 h11]
  have "listInstalledDevices same_path_twice = [recordA, recordA] \<and>
   (\<exists>a b. a \<noteq> b \<and> a < length [recordA, recordA] \<and> b < length [recordA, recordA] \<and>
          path ([recordA, recordA] ! a) = pathA \<and> path ([recordA, recordA] ! b) = pathA \<and>
          fully_queried same_path_twice (CreateFile same_path_twice 0 pathA) ([recordA, recordA] ! a) \<and>
          fully_queried same_path_twice (CreateFile same_path_twice 1 pathA) ([recordA, recordA] ! b))" .
  with same_path_twice_returns same_path_twice_distinct same_path_twice_paths c0 c1
  show ?thesis by (simp only: simp_thms)
qed

text \<open>
  C7 as it is written, with nothing said about the later queries, fails at the
  state \<open>second_handle_unanswered\<close>: the path is discovered twice, the opens
  return the handles 0x20 and 0x10, the attributes query fails on 0x10, and the
  result has one entry for the path.
\<close>

theorem same_path_twice_one_entry:
  "fst (devicePaths second_handle_unanswered) = [pathA, pathA] \<and>
   CreateFile second_handle_unanswered 0 pathA = 0x20 \<and>
   CreateFile second_handle_unanswered 1 pathA = 0x10 \<and>
   listInstalledDevices second_handle_unanswered = [recordA]"
  by code_simp

text \<open>
  C8. The sequence returned lists the entries of the attribute collection in the
  order a loop visits them, which is ascending in the handle value: the keys of
  \<open>handleAttributesMap\<close> are strictly ascending, and the result is either empty
  (no device-information set, or an exception) or has, at each position, the
  record made from the entry of \<open>handleAttributesMap\<close> at that position.
\<close>

theorem result_follows_attribute_collection_order:
  "sorted_wrt (<) (map fst (fst (handleAttributesMap os))) \<and>
   (listInstalledDevices os = [] \<or>
    list_all2 (\<lambda>elem r. fully_queried os (fst elem) r \<and> attributes r = snd elem)
      (fst (handleAttributesMap os)) (listInstalledDevices os))"
proof (cases "\<exists>l. fst (try_block os) = Inr (Some l)")
  case True
  then obtain l where t: "fst (try_block os) = Inr (Some l)" by auto
  from normal_result [OF t]
  have l: "l = map (device_info os) (fst (handleAttributesMap os))"
    and fq: "\<forall>e\<in>set (fst (handleAttributesMap os)). fully_queried os (fst e) (device_info os e)"
    by auto
  have "list_all2 (\<lambda>elem r. fully_queried os (fst elem) r \<and> attributes r = snd elem)
           (fst (handleAttributesMap os)) l"
    unfolding l list_all2_map2 using fq
    by (auto simp: list_all2_same device_info_def)
  with t attrs_sorted [of os] show ?thesis
    by (simp add: listInstalledDevices_value)
next
  case False
  then have "listInstalledDevices os = []"
    by (auto simp: listInstalledDevices_value split: sum.splits option.splits)
  with attrs_sorted [of os] show ?thesis by simp
qed

theorem result_follows_attribute_collection_order_witness:
  "listInstalledDevices two_devices = [recordB, recordA] \<and>
   map fst (fst (handleAttributesMap two_devices)) = [0x10, 0x20] \<and>
   sorted_wrt (<) (map fst (fst (handleAttributesMap two_devices))) \<and>
   list_all2 (\<lambda>elem r. fully_queried two_devices (fst elem) r \<and> attributes r = snd elem)
     (fst (handleAttributesMap two_devices)) (listInstalledDevices two_devices)"
proof -
  have "listInstalledDevices two_devices \<noteq> []"
    by (simp add: two_devices_result)
  with result_follows_attribute_collection_order [of two_devices]
  have "sorted_wrt (<) (map fst (fst (handleAttributesMap two_devices))) \<and>
    list_all2 (\<lambda>elem r. fully_queried two_devices (fst elem) r \<and> attributes r = snd elem)
      (fst (handleAttributesMap two_devices)) (listInstalledDevices two_devices)"
    by simp
  with two_devices_result two_devices_attrs show ?thesis by simp
qed

text \<open>
  C9. Two calls against an unchanged device set return the same records, in some
  order. The second call meets the system in another state than the first only in
  the values of the handles and blobs it is given: \<open>same_devices os os'\<close> says
  that discovery succeeds in both or in neither and that the devices behind the
  opens answer alike, and \<open>distinct_handles\<close> that a call is never given a handle
  value twice. The order of the records may differ, because it follows the handle
  values.
\<close>

theorem repeated_call_returns_same_records:
  assumes "same_devices os os'" and "distinct_handles os" and "distinct_handles os'"
  shows "mset (listInstalledDevices os) = mset (listInstalledDevices os')"
  using assms(1) unfolding result_mset_views [OF assms(2)] result_mset_views [OF assms(3)]
  by (simp add: same_devices_def)

theorem repeated_call_returns_same_records_witness:
  "same_devices two_devices two_devices_later \<and>
   distinct_handles two_devices \<and> distinct_handles two_devices_later \<and>
   listInstalledDevices two_devices = [recordB, recordA] \<and>
   listInstalledDevices two_devices_later = [recordA, recordB] \<and>
   mset (listInstalledDevices two_devices) = mset (listInstalledDevices two_devices_later)"
  using repeated_call_returns_same_records
          [OF two_devices_same two_devices_distinct two_devices_later_distinct]
    two_devices_same two_devices_distinct two_devices_later_distinct
    two_devices_result two_devices_later_result
  by simp

text \<open>
  C10. If, for some open handle, the manufacturer query fills the whole buffer of
  126 code units and writes no null, then \<^verbatim>\<open>find_first_of\<close> gives \<^verbatim>\<open>npos\<close>, the
  \<^verbatim>\<open>erase\<close> at that position throws \<^verbatim>\<open>std::out_of_range\<close>, the exception leaves
  the \<^verbatim>\<open>try\<close> block, and the whole call returns the empty sequence: no truncated
  string is produced for that device.
\<close>

theorem unterminated_manufacturer_string_empties_result:
  assumes "SetupDiGetClassDevs os \<noteq> INVALID_HANDLE_VALUE"
      and "(hnd, p) \<in> set (fst (openDeviceHandles os))"
      and "length (snd (HidD_GetManufacturerString os hnd)) \<ge> MAX_USB_DEVICE_STR_LEN"
      and "0 \<notin> set (take MAX_USB_DEVICE_STR_LEN (snd (HidD_GetManufacturerString os hnd)))"
  shows "manufacturer_string os hnd = Inl out_of_range \<and>
         fst (try_block os) = Inl out_of_range \<and>
         listInstalledDevices os = []"
proof -
  have m: "manufacturer_string os hnd = Inl out_of_range"
    by (rule manufacturer_string_unterminated [OF assms(3) assms(4)])
  with assms(2) have "\<exists>e\<in>set (fst (openDeviceHandles os)). isl (manufacturer_string os (fst e))"
    by force
  with assms(1) have t: "fst (try_block os) = Inl out_of_range"
    by (simp add: try_block_value)
  with m show ?thesis by (simp add: listInstalledDevices_value)
qed

theorem unterminated_manufacturer_string_empties_result_witness:
  "SetupDiGetClassDevs unterminated_manufacturer \<noteq> INVALID_HANDLE_VALUE \<and>
   (0x20, pathA) \<in> set (fst (openDeviceHandles unterminated_manufacturer)) \<and>
   length (snd (HidD_GetManufacturerString unterminated_manufacturer 0x20)) \<ge> MAX_USB_DEVICE_STR_LEN \<and>
   0 \<notin> set (take MAX_USB_DEVICE_STR_LEN (snd (HidD_GetManufacturerString unterminated_manufacturer 0x20))) \<and>
   manufacturer_string unterminated_manufacturer 0x20 = Inl out_of_range \<and>
   fst (try_block unterminated_manufacturer) = Inl out_of_range \<and>
   listInstalledDevices unterminated_manufacturer = []"
proof -
  have h1: "SetupDiGetClassDevs unterminated_manufacturer \<noteq> INVALID_HANDLE_VALUE"
    by code_simp
  have h2: "(0x20, pathA) \<in> set (fst (openDeviceHandles unterminated_manufacturer))"
    by code_simp
  have h3: "length (snd (HidD_GetManufacturerString unterminated_manufacturer 0x20))
              \<ge> MAX_USB_DEVICE_STR_LEN"
    by code_simp
  have h4: "0 \<notin> set (take MAX_USB_DEVICE_STR_LEN
              (snd (HidD_GetManufacturerString unterminated_manufacturer 0x20)))"
    by code_simp
  from unterminated_manufacturer_string_empties_result [OF h1 h2 h3 h4] h1 h2 h3 h4
  show ?thesis by blast
qed

end
